theory Spec2Isabelle
  imports Complex_Main "HOL-Library.Log_Nat"
begin

section \<open>Circuit breaker (router/index.ts, lines 22--73)\<close>

text \<open>
  \<^verbatim>\<open>interface CircuitState { failures: number; lastFailure: number; isOpen: boolean; }\<close>
  The counter only ever grows by one from 0, so it is a natural number; the time stamp is
  a millisecond count as returned by \<^verbatim>\<open>Date.now()\<close>.
\<close>

record CircuitState =
  failures :: nat
  lastFailure :: int
  isOpen :: bool

definition FAILURE_THRESHOLD :: nat where
  "FAILURE_THRESHOLD = 3"

definition RECOVERY_TIME :: int where
  "RECOVERY_TIME = 60 * 1000"

text \<open>
  Observable calls, kept as a ghost log beside the program state: the dispatch of the
  thunk at position \<open>i\<close> of a provider list (with the clock value at dispatch), and the
  calls of \<^verbatim>\<open>recordSuccess\<close> and \<^verbatim>\<open>recordFailure\<close>. The program never reads the log.
\<close>

datatype event = Invoked nat int | RecordedSuccess string | RecordedFailure string

text \<open>
  The module state: the \<^verbatim>\<open>circuitBreakers\<close> map, the value \<^verbatim>\<open>Date.now()\<close> returns,
  and the ghost log.
\<close>

record rstate =
  circuitBreakers :: "string \<rightharpoonup> CircuitState"
  clock :: int
  trace :: "event list"

definition newCircuit :: CircuitState where
  "newCircuit = \<lparr>failures = 0, lastFailure = 0, isOpen = False\<rparr>"

text \<open>\<^verbatim>\<open>getCircuit\<close> creates the entry on first reference and returns it.\<close>

definition getCircuit :: "string \<Rightarrow> rstate \<Rightarrow> CircuitState \<times> rstate" where
  "getCircuit src s =
     (case circuitBreakers s src of
        None \<Rightarrow> (newCircuit, s\<lparr>circuitBreakers := (circuitBreakers s)(src \<mapsto> newCircuit)\<rparr>)
      | Some c \<Rightarrow> (c, s))"

text \<open>The returned object is the one stored in the map, so a field write updates the map.\<close>

definition putCircuit :: "string \<Rightarrow> CircuitState \<Rightarrow> rstate \<Rightarrow> rstate" where
  "putCircuit src c s = s\<lparr>circuitBreakers := (circuitBreakers s)(src \<mapsto> c)\<rparr>"

definition logEvent :: "event \<Rightarrow> rstate \<Rightarrow> rstate" where
  "logEvent e s = s\<lparr>trace := trace s @ [e]\<rparr>"

definition recordSuccess :: "string \<Rightarrow> rstate \<Rightarrow> rstate" where
  "recordSuccess src s =
     (let (circuit, s1) = getCircuit src s
      in logEvent (RecordedSuccess src)
           (putCircuit src (circuit\<lparr>failures := 0, isOpen := False\<rparr>) s1))"

definition recordFailure :: "string \<Rightarrow> rstate \<Rightarrow> rstate" where
  "recordFailure src s =
     (let (circuit, s1) = getCircuit src s;
          c1 = circuit\<lparr>failures := failures circuit + 1\<rparr>;
          c2 = c1\<lparr>lastFailure := clock s1\<rparr>;
          c3 = (if failures c2 \<ge> FAILURE_THRESHOLD then c2\<lparr>isOpen := True\<rparr> else c2)
      in logEvent (RecordedFailure src) (putCircuit src c3 s1))"

definition isCircuitOpen :: "string \<Rightarrow> rstate \<Rightarrow> bool \<times> rstate" where
  "isCircuitOpen src s =
     (let (circuit, s1) = getCircuit src s
      in if \<not> isOpen circuit then (False, s1)
         else if clock s1 - lastFailure circuit > RECOVERY_TIME
         then (False, putCircuit src (circuit\<lparr>isOpen := False\<rparr>) s1)
         else (True, s1))"

text \<open>The circuit of a provider as \<^verbatim>\<open>getCircuit\<close> would return it.\<close>

definition circuitOf :: "rstate \<Rightarrow> string \<Rightarrow> CircuitState" where
  "circuitOf s src = fst (getCircuit src s)"

section \<open>Fallback executor (router/index.ts, lines 79--122)\<close>

text \<open>
  A thrown value. Every adapter and the executor itself throw \<^verbatim>\<open>Error\<close> objects
  (\<^verbatim>\<open>new Error(msg)\<close>, or a runtime error of the platform), which carry a name and a
  message.
\<close>

datatype thrown = Error (ename: string) (message: string)

text \<open>\<^verbatim>\<open>String(error)\<close> for an error object (\<^verbatim>\<open>Error.prototype.toString\<close>).\<close>

definition errorToString :: "thrown \<Rightarrow> string" where
  "errorToString e =
     (if message e = [] then ename e
      else if ename e = [] then message e
      else ename e @ '': '' @ message e)"

text \<open>\<^verbatim>\<open>error.message || String(error)\<close>: the empty message is falsy.\<close>

definition reasonOf :: "thrown \<Rightarrow> string" where
  "reasonOf e = (if message e \<noteq> [] then message e else errorToString e)"

text \<open>How an awaited promise settles.\<close>

datatype 'a settled = Resolved 'a | Rejected thrown

text \<open>
  A thunk \<^verbatim>\<open>() => Promise<T>\<close>: started at a clock value, it settles and tells the
  clock value at which the awaiting code resumes.
\<close>

type_synonym 'a thunk = "int \<Rightarrow> 'a settled \<times> int"

record 'a SourceEntry =
  name :: string
  fn :: "'a thunk"

record 'a FallbackOptions =
  sources :: "'a SourceEntry list"
  validate :: "('a \<Rightarrow> bool) option"

record 'a FallbackResult =
  result :: 'a
  source :: string
  fallbacksUsed :: nat

text \<open>\<^verbatim>\<open>Array.prototype.join\<close> on strings.\<close>

fun joinStr :: "string \<Rightarrow> string list \<Rightarrow> string" where
  "joinStr sep [] = []"
| "joinStr sep [x] = x"
| "joinStr sep (x # y # ys) = x @ sep @ joinStr sep (y # ys)"

text \<open>\<^verbatim>\<open>await fn()\<close> for the provider at position \<open>i\<close>.\<close>

definition invoke :: "nat \<Rightarrow> 'a thunk \<Rightarrow> rstate \<Rightarrow> 'a settled \<times> rstate" where
  "invoke i f s =
     (let (r, t) = f (clock s)
      in (r, (logEvent (Invoked i (clock s)) s)\<lparr>clock := t\<rparr>))"

text \<open>\<^verbatim>\<open>options.validate && !options.validate(result)\<close> is the rejection test.\<close>

definition rejects :: "('a \<Rightarrow> bool) option \<Rightarrow> 'a \<Rightarrow> bool" where
  "rejects v r = (case v of None \<Rightarrow> False | Some p \<Rightarrow> \<not> p r)"

definition errorSummary :: "(string \<times> string) list \<Rightarrow> string" where
  "errorSummary errors = joinStr ''; '' (map (\<lambda>(src, e). src @ '': '' @ e) errors)"

definition allFailed :: "(string \<times> string) list \<Rightarrow> thrown" where
  "allFailed errors = Error ''Error'' (''All sources failed: '' @ errorSummary errors)"

text \<open>
  The \<^verbatim>\<open>for\<close> loop from index \<open>i\<close> over the remaining providers, with the \<^verbatim>\<open>errors\<close>
  array collected so far. \<open>Inl\<close> is the error thrown after the loop.
\<close>

fun execLoop ::
  "('a \<Rightarrow> bool) option \<Rightarrow> nat \<Rightarrow> 'a SourceEntry list \<Rightarrow> (string \<times> string) list \<Rightarrow> rstate
     \<Rightarrow> (thrown + 'a FallbackResult) \<times> rstate" where
  "execLoop v i [] errors s = (Inl (allFailed errors), s)"
| "execLoop v i (e # rest) errors s =
     (let (opn, s1) = isCircuitOpen (name e) s
      in if opn
         then execLoop v (i + 1) rest (errors @ [(name e, ''Circuit breaker open'')]) s1
         else (let (r, s2) = invoke i (fn e) s1
               in case r of
                    Resolved x \<Rightarrow>
                      if rejects v x
                      then (let err = Error ''Error'' ''Validation failed'';
                                s3 = recordFailure (name e) s2
                            in execLoop v (i + 1) rest (errors @ [(name e, reasonOf err)]) s3)
                      else (Inr \<lparr>result = x, source = name e, fallbacksUsed = i\<rparr>,
                            recordSuccess (name e) s2)
                  | Rejected err \<Rightarrow>
                      (let s3 = recordFailure (name e) s2
                       in execLoop v (i + 1) rest (errors @ [(name e, reasonOf err)]) s3)))"

definition executeWithFallback ::
  "'a FallbackOptions \<Rightarrow> rstate \<Rightarrow> (thrown + 'a FallbackResult) \<times> rstate" where
  "executeWithFallback options s = execLoop (validate options) 0 (sources options) [] s"

section \<open>Observations on a run of the executor\<close>

text \<open>The events a run appends to the log, given the states before and after it.\<close>

definition newEvents :: "rstate \<Rightarrow> rstate \<Rightarrow> event list" where
  "newEvents s s' = drop (length (trace s)) (trace s')"

text \<open>The provider positions whose thunks were dispatched, in the order of dispatch.\<close>

fun invokedIdx :: "event list \<Rightarrow> nat list" where
  "invokedIdx [] = []"
| "invokedIdx (Invoked i t # es) = i # invokedIdx es"
| "invokedIdx (RecordedSuccess p # es) = invokedIdx es"
| "invokedIdx (RecordedFailure p # es) = invokedIdx es"

text \<open>
  A settled thunk counts as a failure when it rejected, or resolved with a value the
  validator refuses; \<open>failsWith\<close> also names the reason pushed on \<^verbatim>\<open>errors\<close>.
\<close>

definition failedOutcome :: "('a \<Rightarrow> bool) option \<Rightarrow> 'a settled \<Rightarrow> bool" where
  "failedOutcome v r = (case r of Resolved x \<Rightarrow> rejects v x | Rejected err \<Rightarrow> True)"

definition failsWith :: "('a \<Rightarrow> bool) option \<Rightarrow> 'a settled \<Rightarrow> string \<Rightarrow> bool" where
  "failsWith v r reason =
     (case r of Resolved x \<Rightarrow> rejects v x \<and> reason = ''Validation failed''
              | Rejected err \<Rightarrow> reason = reasonOf err)"

text \<open>
  What passing over one provider does to the state when the loop does not return at it:
  the circuit query, and for a circuit that is not open the dispatch of the thunk followed
  by \<^verbatim>\<open>recordFailure\<close>. \<open>passedOver i xs s\<close> passes over the providers \<open>xs\<close> in turn, the
  first of them at position \<open>i\<close>: it is the state in which the loop reaches the provider
  after \<open>xs\<close> when none of \<open>xs\<close> returned.
\<close>

definition passOne :: "nat \<Rightarrow> 'a SourceEntry \<Rightarrow> rstate \<Rightarrow> rstate" where
  "passOne i e s =
     (let (opn, s1) = isCircuitOpen (name e) s
      in if opn then s1 else recordFailure (name e) (snd (invoke i (fn e) s1)))"

fun passedOver :: "nat \<Rightarrow> 'a SourceEntry list \<Rightarrow> rstate \<Rightarrow> rstate" where
  "passedOver i [] s = s"
| "passedOver i (e # rest) s = passedOver (i + 1) rest (passOne i e s)"

text \<open>
  The thunk that throws \<^verbatim>\<open>new Error('Validation failed')\<close> wherever the given thunk
  resolves with a value the validator refuses, and settles as the given thunk otherwise.
\<close>

definition throwInstead :: "('a \<Rightarrow> bool) option \<Rightarrow> 'a thunk \<Rightarrow> 'a thunk" where
  "throwInstead v f t =
     (case f t of
        (Resolved x, t') \<Rightarrow>
          if rejects v x then (Rejected (Error ''Error'' ''Validation failed''), t')
          else (Resolved x, t')
      | (Rejected err, t') \<Rightarrow> (Rejected err, t'))"

section \<open>Price routing: the result type and its validator (router/index.ts, lines 137--193)\<close>

record NormalizedPrice =
  price :: real
  currency :: string
  change24h :: "real option"
  marketCap :: "real option"

text \<open>\<^verbatim>\<open>validate: (r) => r.price > 0\<close>\<close>

definition validatePrice :: "NormalizedPrice \<Rightarrow> bool" where
  "validatePrice r = (price r > 0)"

section \<open>On-chain routing (router/index.ts, lines 420--640)\<close>

text \<open>
  What \<^verbatim>\<open>onChainSources\<close> reads from the adapters. The JSON-RPC adapter keeps
  \<^verbatim>\<open>nodeUrl\<close> and \<^verbatim>\<open>nodeChainId\<close> (adapters/jsonrpc.ts, lines 83--98); the block-explorer
  adapter is not part of the sources at hand, so \<^verbatim>\<open>etherscan.isConfigured()\<close> and
  \<^verbatim>\<open>etherscan.getChainId(name)\<close> (\<open>None\<close> when it throws) are parameters.
\<close>

record AdapterEnv =
  nodeUrl :: string
  nodeChainId :: "string option"
  etherscanConfigured :: bool
  getChainId :: "string \<Rightarrow> string option"

text \<open>\<^verbatim>\<open>jsonrpc.isConfigured()\<close> is \<^verbatim>\<open>!!nodeUrl\<close>.\<close>

definition jsonrpcConfigured :: "AdapterEnv \<Rightarrow> bool" where
  "jsonrpcConfigured env = (nodeUrl env \<noteq> [])"

definition noSourceMessage :: string where
  "noSourceMessage = ''No data source configured. Set an Etherscan API key (set_etherscan_key) or connect a JSON-RPC node (set_node_url).''"

text \<open>\<^verbatim>\<open>() => Promise.reject(new Error(...))\<close>\<close>

definition noSourceFn :: "'a thunk" where
  "noSourceFn t = (Rejected (Error ''Error'' noSourceMessage), t)"

text \<open>
  The chain test inside \<^verbatim>\<open>if (jsonrpc.isConfigured())\<close>: an absent or empty
  \<^verbatim>\<open>requestedChain\<close> is falsy; an unknown chain name makes \<^verbatim>\<open>getChainId\<close> throw.
\<close>

definition includeJsonRpc :: "AdapterEnv \<Rightarrow> string option \<Rightarrow> bool" where
  "includeJsonRpc env requestedChain =
     (case requestedChain of
        None \<Rightarrow> True
      | Some c \<Rightarrow>
          if c = [] then True
          else (case getChainId env c of
                  None \<Rightarrow> False
                | Some requestedChainId \<Rightarrow>
                    (case nodeChainId env of
                       None \<Rightarrow> True
                     | Some n \<Rightarrow> if n \<noteq> [] \<and> requestedChainId \<noteq> n then False else True)))"

definition onChainSources ::
  "AdapterEnv \<Rightarrow> 'a thunk \<Rightarrow> 'a thunk \<Rightarrow> string option \<Rightarrow> 'a SourceEntry list" where
  "onChainSources env jsonrpcFn etherscanFn requestedChain =
     (let sources1 = (if jsonrpcConfigured env \<and> includeJsonRpc env requestedChain
                      then [\<lparr>name = ''JSON-RPC'', fn = jsonrpcFn\<rparr>] else []);
          sources2 = sources1 @ (if etherscanConfigured env
                                 then [\<lparr>name = ''Etherscan'', fn = etherscanFn\<rparr>] else [])
      in if length sources2 = 0
         then sources2 @ [\<lparr>name = ''No source'', fn = noSourceFn\<rparr>]
         else sources2)"

record 'a OnChainResult =
  ocResult :: 'a
  ocSource :: string

text \<open>
  The body every on-chain operation shares:
  \<^verbatim>\<open>const { result, source } = await executeWithFallback({ sources: onChainSources(...) });
  return { result, source };\<close>
\<close>

definition onChainCall ::
  "AdapterEnv \<Rightarrow> 'a thunk \<Rightarrow> 'a thunk \<Rightarrow> string option \<Rightarrow> rstate
     \<Rightarrow> (thrown + 'a OnChainResult) \<times> rstate" where
  "onChainCall env jsonrpcFn etherscanFn chain s =
     (let (r, s') = executeWithFallback
                      \<lparr>sources = onChainSources env jsonrpcFn etherscanFn chain,
                       validate = None\<rparr> s
      in (case r of
            Inl err \<Rightarrow> Inl err
          | Inr out \<Rightarrow> Inr \<lparr>ocResult = result out, ocSource = source out\<rparr>, s'))"

text \<open>
  The operations; the two adapter calls of each are parameters. \<^verbatim>\<open>getBalance\<close>,
  \<^verbatim>\<open>getBlockNumber\<close> and \<^verbatim>\<open>getGasPrice\<close> pass no chain.
\<close>

definition getBalance ::
  "AdapterEnv \<Rightarrow> 'a thunk \<Rightarrow> 'a thunk \<Rightarrow> rstate \<Rightarrow> (thrown + 'a OnChainResult) \<times> rstate" where
  "getBalance env jsonrpc_getBalance etherscan_getBalance =
     onChainCall env jsonrpc_getBalance etherscan_getBalance None"

definition getBlockNumber ::
  "AdapterEnv \<Rightarrow> 'a thunk \<Rightarrow> 'a thunk \<Rightarrow> rstate \<Rightarrow> (thrown + 'a OnChainResult) \<times> rstate" where
  "getBlockNumber env jsonrpc_getBlockNumber etherscan_getBlockNumber =
     onChainCall env jsonrpc_getBlockNumber etherscan_getBlockNumber None"

definition getGasPrice ::
  "AdapterEnv \<Rightarrow> 'a thunk \<Rightarrow> 'a thunk \<Rightarrow> rstate \<Rightarrow> (thrown + 'a OnChainResult) \<times> rstate" where
  "getGasPrice env jsonrpc_getGasPrice etherscan_getGasPrice =
     onChainCall env jsonrpc_getGasPrice etherscan_getGasPrice None"

definition getBlock ::
  "AdapterEnv \<Rightarrow> 'a thunk \<Rightarrow> 'a thunk \<Rightarrow> string option \<Rightarrow> rstate
     \<Rightarrow> (thrown + 'a OnChainResult) \<times> rstate" where
  "getBlock env jsonrpc_getBlockByNumber etherscan_getBlockByNumber chain =
     onChainCall env jsonrpc_getBlockByNumber etherscan_getBlockByNumber chain"

definition getTransaction ::
  "AdapterEnv \<Rightarrow> 'a thunk \<Rightarrow> 'a thunk \<Rightarrow> string option \<Rightarrow> rstate
     \<Rightarrow> (thrown + 'a OnChainResult) \<times> rstate" where
  "getTransaction env jsonrpc_getTransactionByHash etherscan_getTransactionByHash chain =
     onChainCall env jsonrpc_getTransactionByHash etherscan_getTransactionByHash chain"

definition getTransactionReceipt ::
  "AdapterEnv \<Rightarrow> 'a thunk \<Rightarrow> 'a thunk \<Rightarrow> string option \<Rightarrow> rstate
     \<Rightarrow> (thrown + 'a OnChainResult) \<times> rstate" where
  "getTransactionReceipt env jsonrpc_getTransactionReceipt etherscan_getTransactionReceipt chain =
     onChainCall env jsonrpc_getTransactionReceipt etherscan_getTransactionReceipt chain"

definition onChainEthCall ::
  "AdapterEnv \<Rightarrow> 'a thunk \<Rightarrow> 'a thunk \<Rightarrow> string option \<Rightarrow> rstate
     \<Rightarrow> (thrown + 'a OnChainResult) \<times> rstate" where
  "onChainEthCall env jsonrpc_ethCall etherscan_ethCall chain =
     onChainCall env jsonrpc_ethCall etherscan_ethCall chain"

definition getCode ::
  "AdapterEnv \<Rightarrow> 'a thunk \<Rightarrow> 'a thunk \<Rightarrow> string option \<Rightarrow> rstate
     \<Rightarrow> (thrown + 'a OnChainResult) \<times> rstate" where
  "getCode env jsonrpc_getCode etherscan_getCode chain =
     onChainCall env jsonrpc_getCode etherscan_getCode chain"

definition getStorageAt ::
  "AdapterEnv \<Rightarrow> 'a thunk \<Rightarrow> 'a thunk \<Rightarrow> string option \<Rightarrow> rstate
     \<Rightarrow> (thrown + 'a OnChainResult) \<times> rstate" where
  "getStorageAt env jsonrpc_getStorageAt etherscan_getStorageAt chain =
     onChainCall env jsonrpc_getStorageAt etherscan_getStorageAt chain"

definition onChainEstimateGas ::
  "AdapterEnv \<Rightarrow> 'a thunk \<Rightarrow> 'a thunk \<Rightarrow> string option \<Rightarrow> rstate
     \<Rightarrow> (thrown + 'a OnChainResult) \<times> rstate" where
  "onChainEstimateGas env jsonrpc_estimateGas etherscan_estimateGas chain =
     onChainCall env jsonrpc_estimateGas etherscan_estimateGas chain"

definition onChainGetLogs ::
  "AdapterEnv \<Rightarrow> 'a thunk \<Rightarrow> 'a thunk \<Rightarrow> string option \<Rightarrow> rstate
     \<Rightarrow> (thrown + 'a OnChainResult) \<times> rstate" where
  "onChainGetLogs env jsonrpc_getLogs etherscan_getLogs chain =
     onChainCall env jsonrpc_getLogs etherscan_getLogs chain"

definition onChainGetTransactionCount ::
  "AdapterEnv \<Rightarrow> 'a thunk \<Rightarrow> 'a thunk \<Rightarrow> string option \<Rightarrow> rstate
     \<Rightarrow> (thrown + 'a OnChainResult) \<times> rstate" where
  "onChainGetTransactionCount env jsonrpc_getTransactionCount etherscan_getTransactionCount chain =
     onChainCall env jsonrpc_getTransactionCount etherscan_getTransactionCount chain"

definition onChainGetBalanceMulti ::
  "AdapterEnv \<Rightarrow> 'a thunk \<Rightarrow> 'a thunk \<Rightarrow> string option \<Rightarrow> rstate
     \<Rightarrow> (thrown + 'a OnChainResult) \<times> rstate" where
  "onChainGetBalanceMulti env jsonrpc_getBalanceMulti etherscan_getBalanceMulti chain =
     onChainCall env jsonrpc_getBalanceMulti etherscan_getBalanceMulti chain"

section \<open>L2 TVL routing (router/index.ts, lines 303--351; the L2-analytics adapter)\<close>

text \<open>
  Chain names are values of a type \<open>'s\<close>, and \<^verbatim>\<open>String.prototype.toLowerCase\<close> is a parameter
  of the model (the field \<open>toLowerCase\<close> of the environment below). Nothing is assumed of it,
  not even that lower-casing twice is lower-casing once.

  Numbers are reals. \<^verbatim>\<open>x || 0\<close> on an optional number: an absent value and 0 both give 0.
\<close>

definition orZero :: "real option \<Rightarrow> real" where
  "orZero x = (case x of None \<Rightarrow> 0 | Some y \<Rightarrow> (if y = 0 then 0 else y))"

text \<open>The object \<^verbatim>\<open>getL2Chain\<close> returns.\<close>

record 's L2Chain =
  chain :: 's
  l2tvl :: real
  txcount :: real
  fees :: real
  daa :: real
  stablesMcap :: real
  fdv :: real
  l2marketCap :: real
  profit :: real
  throughput :: real
  rentPaid :: real

text \<open>
  \<^verbatim>\<open>getFundamentals\<close> resolves with a map from chain key to a map from metric key to
  value; the request behind it is a parameter. \<^verbatim>\<open>processData\<close> stores each item under its
  \<^verbatim>\<open>origin_key\<close> as the service sent it.
\<close>

type_synonym 's fundamentals = "'s \<rightharpoonup> (string \<rightharpoonup> real)"

text \<open>
  \<^verbatim>\<open>getL2Chain\<close> (the adapter, lines 132--157): \<^verbatim>\<open>chainMetrics.get(chain.toLowerCase())\<close>
  looks the lower-cased argument up among the keys as they are.
\<close>

definition getL2Chain ::
  "('s \<Rightarrow> 's) \<Rightarrow> 's fundamentals thunk \<Rightarrow> 's \<Rightarrow> ('s L2Chain option) thunk" where
  "getL2Chain lower getFundamentals chn t =
     (case getFundamentals t of
        (Rejected err, t') \<Rightarrow> (Rejected err, t')
      | (Resolved chainMetrics, t') \<Rightarrow>
          (case chainMetrics (lower chn) of
             None \<Rightarrow> (Resolved None, t')
           | Some metrics \<Rightarrow>
               (Resolved (Some
                  \<lparr>chain = lower chn,
                   l2tvl = orZero (metrics ''tvl''),
                   txcount = orZero (metrics ''txcount''),
                   fees = orZero (metrics ''txcosts''),
                   daa = orZero (metrics ''daa''),
                   stablesMcap = orZero (metrics ''stables_mcap''),
                   fdv = orZero (metrics ''fdv''),
                   l2marketCap = orZero (metrics ''market_cap''),
                   profit = orZero (metrics ''profit''),
                   throughput = orZero (metrics ''throughput''),
                   rentPaid = orZero (metrics ''rent_paid'')\<rparr>), t')))"

text \<open>An entry of the DeFi aggregator's chain list; \<open>None\<close> is an absent or null \<^verbatim>\<open>tvl\<close>.\<close>

record 's ChainEntry =
  chainName :: 's
  chainTvl :: "real option"

record NormalizedTvl =
  tvl :: real
  breakdown :: "(string \<rightharpoonup> real) option"

text \<open>\<^verbatim>\<open>{ ...result, source, fallbacksUsed }\<close>\<close>

record TvlResult = NormalizedTvl +
  tvlSource :: string
  tvlFallbacksUsed :: nat

text \<open>The string method and the adapters behind \<^verbatim>\<open>getL2Tvl\<close>.\<close>

record 's TvlEnv =
  toLowerCase :: "'s \<Rightarrow> 's"
  getFundamentals :: "'s fundamentals thunk"
  getChains :: "('s ChainEntry list) thunk"

definition chainNotFound :: thrown where
  "chainNotFound = Error ''Error'' ''Chain not found''"

text \<open>The first thunk of \<^verbatim>\<open>getL2Tvl\<close>; \<^verbatim>\<open>!data?.tvl\<close> holds for null data and for tvl 0.\<close>

definition growthepieTvl :: "'s TvlEnv \<Rightarrow> 's \<Rightarrow> NormalizedTvl thunk" where
  "growthepieTvl env normalizedChain t =
     (case getL2Chain (toLowerCase env) (getFundamentals env) normalizedChain t of
        (Rejected err, t') \<Rightarrow> (Rejected err, t')
      | (Resolved d, t') \<Rightarrow>
          (case d of
             None \<Rightarrow> (Rejected chainNotFound, t')
           | Some c \<Rightarrow>
               if l2tvl c = 0 then (Rejected chainNotFound, t')
               else (Resolved \<lparr>tvl = l2tvl c, breakdown = None\<rparr>, t')))"

text \<open>
  The second thunk; \<^verbatim>\<open>chains.find((c) => c.name.toLowerCase() === normalizedChain)\<close> gives
  the first entry whose lowered name is the normalised argument.
\<close>

definition defillamaTvl :: "'s TvlEnv \<Rightarrow> 's \<Rightarrow> NormalizedTvl thunk" where
  "defillamaTvl env normalizedChain t =
     (case getChains env t of
        (Rejected err, t') \<Rightarrow> (Rejected err, t')
      | (Resolved chainList, t') \<Rightarrow>
          (case find (\<lambda>c. toLowerCase env (chainName c) = normalizedChain) chainList of
             None \<Rightarrow> (Rejected chainNotFound, t')
           | Some chainData \<Rightarrow>
               (case chainTvl chainData of
                  None \<Rightarrow> (Rejected chainNotFound, t')
                | Some x \<Rightarrow>
                    if x = 0 then (Rejected chainNotFound, t')
                    else (Resolved \<lparr>tvl = x, breakdown = None\<rparr>, t'))))"

text \<open>\<^verbatim>\<open>validate: (r) => r.tvl >= 0\<close>\<close>

definition validateTvl :: "NormalizedTvl \<Rightarrow> bool" where
  "validateTvl r = (tvl r \<ge> 0)"

definition l2TvlSources :: "'s TvlEnv \<Rightarrow> 's \<Rightarrow> NormalizedTvl SourceEntry list" where
  "l2TvlSources env normalizedChain =
     [\<lparr>name = ''growthepie'', fn = growthepieTvl env normalizedChain\<rparr>,
      \<lparr>name = ''defillama'', fn = defillamaTvl env normalizedChain\<rparr>]"

text \<open>\<^verbatim>\<open>const normalizedChain = chain.toLowerCase()\<close>, then the executor on the two thunks.\<close>

definition getL2Tvl :: "'s TvlEnv \<Rightarrow> 's \<Rightarrow> rstate \<Rightarrow> (thrown + TvlResult) \<times> rstate" where
  "getL2Tvl env chn s =
     (let normalizedChain = toLowerCase env chn;
          (r, s') = executeWithFallback
                      \<lparr>sources = l2TvlSources env normalizedChain,
                       validate = Some validateTvl\<rparr> s
      in (case r of
            Inl err \<Rightarrow> Inl err
          | Inr out \<Rightarrow>
              Inr \<lparr>tvl = tvl (result out), breakdown = breakdown (result out),
                   tvlSource = source out, tvlFallbacksUsed = fallbacksUsed out\<rparr>, s'))"

section \<open>Numbers of the comparison (ECMAScript Number, IEEE 754 binary64)\<close>

text \<open>
  A price of the comparison is a JavaScript number. \<open>Fin q\<close> is the finite number of value
  \<open>q\<close>, with \<open>Fin 0\<close> for \<^verbatim>\<open>+0\<close>; \<open>NegZero\<close> is \<^verbatim>\<open>-0\<close>. An arithmetic operation rounds
  its exact result with \<open>fl\<close>.
\<close>

datatype jsnum = Fin rat | NegZero | PosInf | NegInf | NaN

definition pow2 :: "int \<Rightarrow> rat" where
  "pow2 k = (if k \<ge> 0 then 2 ^ nat k else 1 / 2 ^ nat (- k))"

text \<open>For \<open>0 < a\<close>, the exponent \<open>e\<close> with \<open>2^e \<le> a < 2^(e+1)\<close>.\<close>

definition ilog2 :: "rat \<Rightarrow> int" where
  "ilog2 a = (let (p, q) = quotient_of a; d = bitlen p - bitlen q
              in if pow2 d \<le> a then d else d - 1)"

text \<open>The nearest integer, a tie going to the even one.\<close>

definition roundEven :: "rat \<Rightarrow> int" where
  "roundEven x = (let f = \<lfloor>x\<rfloor>; r = x - of_int f
                  in if r < 1 / 2 then f else if 1 / 2 < r then f + 1
                     else if even f then f else f + 1)"

text \<open>
  Rounding to binary64, to nearest with ties to even: 53 significant bits, exponents from
  \<open>-1022\<close> (below it the spacing stays \<open>2^(-1074)\<close>, the subnormal numbers) to 1023, and an
  infinity when the rounded value reaches \<open>2^1024\<close>. A nonzero value that rounds to zero
  keeps its sign.
\<close>

definition fl :: "rat \<Rightarrow> jsnum" where
  "fl q = (if q = 0 then Fin 0
           else (let a = \<bar>q\<bar>;
                     e = max (ilog2 a) (- 1022);
                     ulp = pow2 (e - 52);
                     r = of_int (roundEven (a / ulp)) * ulp
                 in if pow2 1024 \<le> r then (if q < 0 then NegInf else PosInf)
                    else if r = 0 then (if q < 0 then NegZero else Fin 0)
                    else Fin (if q < 0 then - r else r)))"

text \<open>\<open>Fin q\<close> stands for a number only when \<open>q\<close> is a binary64 value.\<close>

definition isDouble :: "jsnum \<Rightarrow> bool" where
  "isDouble x = (case x of Fin q \<Rightarrow> fl q = Fin q | _ \<Rightarrow> True)"

fun valOf :: "jsnum \<Rightarrow> rat" where
  "valOf (Fin q) = q"
| "valOf _ = 0"

fun negative :: "jsnum \<Rightarrow> bool" where
  "negative (Fin q) = (q < 0)"
| "negative NegZero = True"
| "negative NegInf = True"
| "negative _ = False"

fun isZero :: "jsnum \<Rightarrow> bool" where
  "isZero (Fin q) = (q = 0)"
| "isZero NegZero = True"
| "isZero _ = False"

fun isInf :: "jsnum \<Rightarrow> bool" where
  "isInf PosInf = True"
| "isInf NegInf = True"
| "isInf _ = False"

definition signedInf :: "bool \<Rightarrow> jsnum" where
  "signedInf neg = (if neg then NegInf else PosInf)"

definition signedZero :: "bool \<Rightarrow> jsnum" where
  "signedZero neg = (if neg then NegZero else Fin 0)"

text \<open>
  \<^verbatim>\<open>x + y\<close>: opposite infinities give \<^verbatim>\<open>NaN\<close>; \<^verbatim>\<open>-0 + -0\<close> is \<^verbatim>\<open>-0\<close>, and every other sum
  that is exactly zero is \<^verbatim>\<open>+0\<close>.
\<close>

definition fadd :: "jsnum \<Rightarrow> jsnum \<Rightarrow> jsnum" where
  "fadd x y =
     (if x = NaN \<or> y = NaN then NaN
      else if isInf x \<and> isInf y then (if x = y then x else NaN)
      else if isInf x then x
      else if isInf y then y
      else if x = NegZero \<and> y = NegZero then NegZero
      else fl (valOf x + valOf y))"

fun fneg :: "jsnum \<Rightarrow> jsnum" where
  "fneg (Fin q) = (if q = 0 then NegZero else Fin (- q))"
| "fneg NegZero = Fin 0"
| "fneg PosInf = NegInf"
| "fneg NegInf = PosInf"
| "fneg NaN = NaN"

text \<open>\<^verbatim>\<open>x - y\<close> is \<^verbatim>\<open>x + (-y)\<close>.\<close>

definition fsub :: "jsnum \<Rightarrow> jsnum \<Rightarrow> jsnum" where
  "fsub x y = fadd x (fneg y)"

text \<open>\<^verbatim>\<open>x * y\<close>: an infinity times a zero is \<^verbatim>\<open>NaN\<close>; the sign is the product of the signs.\<close>

definition fmul :: "jsnum \<Rightarrow> jsnum \<Rightarrow> jsnum" where
  "fmul x y =
     (if x = NaN \<or> y = NaN then NaN
      else if (isInf x \<and> isZero y) \<or> (isZero x \<and> isInf y) then NaN
      else if isInf x \<or> isInf y then signedInf (negative x \<noteq> negative y)
      else if isZero x \<or> isZero y then signedZero (negative x \<noteq> negative y)
      else fl (valOf x * valOf y))"

text \<open>
  \<^verbatim>\<open>x / y\<close>: two infinities or two zeros give \<^verbatim>\<open>NaN\<close>; a division by a zero gives an
  infinity; the sign is the product of the signs.
\<close>

definition fdiv :: "jsnum \<Rightarrow> jsnum \<Rightarrow> jsnum" where
  "fdiv x y =
     (if x = NaN \<or> y = NaN then NaN
      else if (isInf x \<and> isInf y) \<or> (isZero x \<and> isZero y) then NaN
      else if isInf x \<or> isZero y then signedInf (negative x \<noteq> negative y)
      else if isInf y \<or> isZero x then signedZero (negative x \<noteq> negative y)
      else fl (valOf x / valOf y))"

text \<open>\<^verbatim>\<open>Math.abs\<close>\<close>

fun fabs :: "jsnum \<Rightarrow> jsnum" where
  "fabs (Fin q) = Fin \<bar>q\<bar>"
| "fabs NegZero = Fin 0"
| "fabs PosInf = PosInf"
| "fabs NegInf = PosInf"
| "fabs NaN = NaN"

text \<open>\<^verbatim>\<open>x < y\<close> on numbers; the two zeros are equal, and \<^verbatim>\<open>NaN\<close> is below nothing.\<close>

definition lessThan :: "jsnum \<Rightarrow> jsnum \<Rightarrow> bool" where
  "lessThan x y =
     (if x = NaN \<or> y = NaN then False
      else if x = PosInf \<or> y = NegInf then False
      else if x = NegInf \<or> y = PosInf then True
      else valOf x < valOf y)"

text \<open>
  \<^verbatim>\<open>Math.max(...xs)\<close>: \<^verbatim>\<open>NaN\<close> when an argument is \<^verbatim>\<open>NaN\<close>; otherwise the largest argument,
  starting from \<^verbatim>\<open>-Infinity\<close>, with \<^verbatim>\<open>+0\<close> taken as larger than \<^verbatim>\<open>-0\<close>.
\<close>

definition mathMax :: "jsnum list \<Rightarrow> jsnum" where
  "mathMax xs =
     (if NaN \<in> set xs then NaN
      else foldl (\<lambda>highest number.
                    if number = Fin 0 \<and> highest = NegZero then Fin 0
                    else if lessThan highest number then number else highest) NegInf xs)"

text \<open>The decimal digits of a natural number.\<close>

fun digitsOf :: "nat \<Rightarrow> string" where
  "digitsOf n = (if n < 10 then [''0123456789'' ! n]
                 else digitsOf (n div 10) @ [''0123456789'' ! (n mod 10)])"

declare digitsOf.simps [simp del]

text \<open>
  \<^verbatim>\<open>Number.prototype.toFixed(3)\<close>. A number that is not finite is printed by name. A finite
  number \<open>x\<close> below \<open>10^21\<close> in magnitude is printed as the integer \<open>n\<close> nearest to
  \<open>1000 * |x|\<close> (the larger one on a tie), padded with zeros to four digits, with a point
  before the last three digits, and a minus sign when \<open>x < 0\<close>. From \<open>10^21\<close> on the
  result is the exponent notation of \<^verbatim>\<open>Number.prototype.toString\<close>, which is not spelled
  out here: \<open>ExpNotation q\<close> stands for that string.
\<close>

datatype numstr = Str string | ExpNotation rat

definition toFixed3 :: "jsnum \<Rightarrow> numstr" where
  "toFixed3 x =
     (case x of
        NaN \<Rightarrow> Str ''NaN''
      | PosInf \<Rightarrow> Str ''Infinity''
      | NegInf \<Rightarrow> Str ''-Infinity''
      | _ \<Rightarrow>
         (let s = (if valOf x < 0 then ''-'' else '''');
              a = \<bar>valOf x\<bar>
          in if 10 ^ 21 \<le> a then ExpNotation (valOf x)
             else (let n = nat \<lfloor>a * 1000 + 1 / 2\<rfloor>;
                       m = digitsOf n;
                       m = replicate (4 - length m) (CHR ''0'') @ m;
                       k = length m
                   in Str (s @ take (k - 3) m @ ''.'' @ drop (k - 3) m))))"

section \<open>Source comparison (router/index.ts, lines 714--785; index.ts, lines 4118--4149)\<close>

text \<open>An entry of \<^verbatim>\<open>results\<close>; \<open>None\<close> is a \<^verbatim>\<open>null\<close> value, and an absent \<^verbatim>\<open>error\<close>.\<close>

record ComparisonEntry =
  csource :: string
  cvalue :: "jsnum option"
  latencyMs :: int
  cerror :: "string option"

record SourceComparison =
  query :: string
  results :: "ComparisonEntry list"

text \<open>
  One of the three \<^verbatim>\<open>try\<close>/\<^verbatim>\<open>catch\<close> blocks of \<^verbatim>\<open>compareEthPrice\<close>: the start time is
  read, the provider is awaited, and an entry is pushed whether it resolved or threw.
  \<open>extract\<close> is the expression stored in \<^verbatim>\<open>value\<close>.
\<close>

definition timedEntry ::
  "string \<Rightarrow> 'r thunk \<Rightarrow> ('r \<Rightarrow> jsnum option) \<Rightarrow> int \<Rightarrow> ComparisonEntry \<times> int" where
  "timedEntry src f extract start =
     (case f start of
        (Resolved d, t) \<Rightarrow>
          (\<lparr>csource = src, cvalue = extract d, latencyMs = t - start, cerror = None\<rparr>, t)
      | (Rejected err, t) \<Rightarrow>
          (\<lparr>csource = src, cvalue = None, latencyMs = t - start,
            cerror = Some (message err)\<rparr>, t))"

text \<open>
  \<^verbatim>\<open>x || null\<close> on an optional number: an absent number, the two zeros and \<^verbatim>\<open>NaN\<close> give
  \<^verbatim>\<open>null\<close>.
\<close>

definition orNull :: "jsnum option \<Rightarrow> jsnum option" where
  "orNull x = (case x of None \<Rightarrow> None
               | Some y \<Rightarrow> (if isZero y \<or> y = NaN then None else Some y))"

text \<open>
  The three provider calls. The explorer resolves with an object whose number \<^verbatim>\<open>usd\<close> is
  stored as it is; the market-data service with a map from id to a map from field to
  number; the DeFi aggregator with an object of which \<^verbatim>\<open>Object.values(data.coins || data)\<close>
  is taken, here the list of the \<^verbatim>\<open>price\<close> fields of those values.
\<close>

record PriceEnv =
  etherscan_getEthPrice :: "jsnum thunk"
  coingecko_getPrice :: "(string \<rightharpoonup> (string \<rightharpoonup> jsnum)) thunk"
  defillama_getCoinPrices :: "(jsnum option list) thunk"

definition compareEthPrice :: "PriceEnv \<Rightarrow> int \<Rightarrow> SourceComparison \<times> int" where
  "compareEthPrice env t0 =
     (let (r1, t1) = timedEntry ''etherscan'' (etherscan_getEthPrice env) (\<lambda>usd. Some usd) t0;
          (r2, t2) = timedEntry ''coingecko'' (coingecko_getPrice env)
                       (\<lambda>d. case d ''ethereum'' of None \<Rightarrow> None
                                  | Some ethData \<Rightarrow> orNull (ethData ''usd'')) t1;
          (r3, t3) = timedEntry ''defillama'' (defillama_getCoinPrices env)
                       (\<lambda>coins. case coins of [] \<Rightarrow> None | coin # _ \<Rightarrow> orNull coin) t2
      in (\<lparr>query = ''ETH Price (USD)'', results = [r1, r2, r3]\<rparr>, t3))"

text \<open>
  The line the comparison tool appends (index.ts, lines 4136--4143). \<^verbatim>\<open>validPrices\<close> are
  the values that are not \<^verbatim>\<open>null\<close>, in the order of the entries; with fewer than two of
  them there is no line. Otherwise the line shows \<^verbatim>\<open>diffPct\<close>.
\<close>

datatype variance = NoLine | MaxVariance numstr

definition maxVariance :: "SourceComparison \<Rightarrow> variance" where
  "maxVariance comparison =
     (let validPrices = map (\<lambda>r. the (cvalue r))
                          (filter (\<lambda>r. cvalue r \<noteq> None) (results comparison))
      in if length validPrices \<ge> 2
         then (let avg = fdiv (foldl fadd (Fin 0) validPrices)
                              (Fin (of_nat (length validPrices)));
                   maxDiff = mathMax (map (\<lambda>p. fabs (fsub p avg)) validPrices);
                   diffPct = toFixed3 (fmul (fdiv maxDiff avg) (Fin 100))
               in MaxVariance diffPct)
         else NoLine)"

section \<open>Concrete inputs\<close>

definition freshState :: rstate where
  "freshState = \<lparr>circuitBreakers = Map.empty, clock = 0, trace = []\<rparr>"

definition threeProviders :: "int FallbackOptions" where
  "threeProviders =
     \<lparr>sources = [\<lparr>name = ''a'', fn = (\<lambda>t. (Rejected (Error ''Error'' ''down''), t + 5))\<rparr>,
                 \<lparr>name = ''b'', fn = (\<lambda>t. (Resolved 0, t + 9))\<rparr>,
                 \<lparr>name = ''c'', fn = (\<lambda>t. (Resolved 7, t + 4))\<rparr>],
      validate = Some (\<lambda>x. 0 < x)\<rparr>"

definition allFailing :: "int FallbackOptions" where
  "allFailing =
     \<lparr>sources = [\<lparr>name = ''a'', fn = (\<lambda>t. (Rejected (Error ''Error'' ''down''), t + 5))\<rparr>,
                 \<lparr>name = ''b'', fn = (\<lambda>t. (Resolved 0, t + 9))\<rparr>],
      validate = Some (\<lambda>x. 0 < x)\<rparr>"

definition slowTriple :: "int FallbackOptions" where
  "slowTriple =
     \<lparr>sources = [\<lparr>name = ''coingecko'', fn = (\<lambda>t. (Rejected (Error ''Error'' ''down''), t + 5))\<rparr>,
                 \<lparr>name = ''etherscan'', fn = (\<lambda>t. (Resolved 1, t + 7))\<rparr>,
                 \<lparr>name = ''defillama'', fn = (\<lambda>t. (Resolved 2, t + 9))\<rparr>],
      validate = None\<rparr>"

definition thriceFailed :: rstate where
  "thriceFailed =
     recordFailure ''etherscan'' ((recordFailure ''etherscan'' ((recordFailure ''etherscan''
       (freshState\<lparr>clock := 1000\<rparr>))\<lparr>clock := 2000\<rparr>))\<lparr>clock := 3000\<rparr>)"

definition scenarioABC :: "NormalizedPrice FallbackOptions" where
  "scenarioABC =
     \<lparr>sources =
        [\<lparr>name = ''A'', fn = (\<lambda>t. (Rejected (Error ''Error'' ''timeout''), t + 30))\<rparr>,
         \<lparr>name = ''B'',
          fn = (\<lambda>t. (Resolved \<lparr>price = 0, currency = ''USD'', change24h = None,
                                  marketCap = None\<rparr>, t + 20))\<rparr>,
         \<lparr>name = ''C'',
          fn = (\<lambda>t. (Resolved \<lparr>price = 100, currency = ''USD'', change24h = None,
                                  marketCap = None\<rparr>, t + 10))\<rparr>],
      validate = Some validatePrice\<rparr>"

definition unconfigured :: AdapterEnv where
  "unconfigured =
     \<lparr>nodeUrl = [], nodeChainId = None, etherscanConfigured = False,
      getChainId = (\<lambda>c. None)\<rparr>"

definition balanceOne :: "string thunk" where
  "balanceOne t = (Resolved ''1'', t + 40)"

text \<open>
  A lower-casing function for the concrete chain names below: on a string of ASCII
  characters it is \<^verbatim>\<open>String.prototype.toLowerCase\<close> (the letters A--Z are mapped to a--z,
  every other character is kept).
\<close>

definition lowerChar :: "char \<Rightarrow> char" where
  "lowerChar c =
     (let n = (of_char c :: nat)
      in if 65 \<le> n \<and> n \<le> 90 then char_of (n + 32) else c)"

definition asciiLowerCase :: "string \<Rightarrow> string" where
  "asciiLowerCase str = map lowerChar str"

definition arbitrumEnv :: "string TvlEnv" where
  "arbitrumEnv =
     \<lparr>toLowerCase = asciiLowerCase,
      getFundamentals =
        (\<lambda>t. (Resolved [''arbitrum'' \<mapsto> [''tvl'' \<mapsto> 5, ''txcount'' \<mapsto> 9]], t + 12)),
      getChains =
        (\<lambda>t. (Resolved [\<lparr>chainName = ''Arbitrum'', chainTvl = Some 7\<rparr>], t + 8))\<rparr>"

text \<open>The same answers, with the analytics key capitalised.\<close>

definition capitalKeyEnv :: "string TvlEnv" where
  "capitalKeyEnv =
     \<lparr>toLowerCase = asciiLowerCase,
      getFundamentals =
        (\<lambda>t. (Resolved [''Arbitrum'' \<mapsto> [''tvl'' \<mapsto> 5, ''txcount'' \<mapsto> 9]], t + 12)),
      getChains =
        (\<lambda>t. (Resolved [\<lparr>chainName = ''Arbitrum'', chainTvl = Some 7\<rparr>], t + 8))\<rparr>"

definition zeroTvlEnv :: "string TvlEnv" where
  "zeroTvlEnv =
     \<lparr>toLowerCase = asciiLowerCase,
      getFundamentals =
        (\<lambda>t. (Resolved [''newchain'' \<mapsto> [''tvl'' \<mapsto> 0]], t + 12)),
      getChains =
        (\<lambda>t. (Resolved [\<lparr>chainName = ''NewChain'', chainTvl = Some 0\<rparr>], t + 8))\<rparr>"

definition twoPrices :: PriceEnv where
  "twoPrices =
     \<lparr>etherscan_getEthPrice = (\<lambda>t. (Resolved (Fin 3000), t + 120)),
      coingecko_getPrice =
        (\<lambda>t. (Resolved [''ethereum'' \<mapsto> [''usd'' \<mapsto> Fin 3006]], t + 80)),
      defillama_getCoinPrices =
        (\<lambda>t. (Rejected (Error ''Error'' ''DefiLlama API error: Bad Gateway''), t + 50))\<rparr>"

section \<open>Circuit breaker: basic facts\<close>

lemma circuitOf_recordFailure:
  "circuitOf (recordFailure p s) p =
     (circuitOf s p)\<lparr>failures := failures (circuitOf s p) + 1, lastFailure := clock s,
        isOpen := (isOpen (circuitOf s p) \<or> failures (circuitOf s p) + 1 \<ge> FAILURE_THRESHOLD)\<rparr>"
  by (simp add: circuitOf_def recordFailure_def getCircuit_def putCircuit_def logEvent_def
      Let_def split: option.splits)

lemma clock_recordFailure [simp]: "clock (recordFailure p s) = clock s"
  by (simp add: recordFailure_def getCircuit_def putCircuit_def logEvent_def Let_def
      split: option.splits)

section \<open>The executor loop: one iteration, and what a run logs\<close>

lemma trace_getCircuit [simp]: "trace (snd (getCircuit p s)) = trace s"
  by (simp add: getCircuit_def split: option.splits)

lemma clock_getCircuit [simp]: "clock (snd (getCircuit p s)) = clock s"
  by (simp add: getCircuit_def split: option.splits)

lemma trace_isCircuitOpen [simp]: "trace (snd (isCircuitOpen p s)) = trace s"
  by (simp add: isCircuitOpen_def getCircuit_def putCircuit_def split: option.splits)

lemma clock_isCircuitOpen [simp]: "clock (snd (isCircuitOpen p s)) = clock s"
  by (simp add: isCircuitOpen_def getCircuit_def putCircuit_def split: option.splits)

lemma trace_recordFailure [simp]: "trace (recordFailure p s) = trace s @ [RecordedFailure p]"
  by (simp add: recordFailure_def getCircuit_def putCircuit_def logEvent_def Let_def split: option.splits)

lemma trace_recordSuccess [simp]: "trace (recordSuccess p s) = trace s @ [RecordedSuccess p]"
  by (simp add: recordSuccess_def getCircuit_def putCircuit_def logEvent_def Let_def split: option.splits)

lemma invoke_simps [simp]:
  "fst (invoke i f s) = fst (f (clock s))"
  "trace (snd (invoke i f s)) = trace s @ [Invoked i (clock s)]"
  "clock (snd (invoke i f s)) = snd (f (clock s))"
  "circuitBreakers (snd (invoke i f s)) = circuitBreakers s"
  by (simp_all add: invoke_def logEvent_def split: prod.splits)

lemma reasonOf_validation [simp]: "reasonOf (Error ''Error'' ''Validation failed'') = ''Validation failed''"
  by (simp add: reasonOf_def)

lemma execLoop_Cons:
  "execLoop v i (e # rest) errs s =
     (let s1 = snd (isCircuitOpen (name e) s) in
      if fst (isCircuitOpen (name e) s)
      then execLoop v (i + 1) rest (errs @ [(name e, ''Circuit breaker open'')]) s1
      else (let s2 = snd (invoke i (fn e) s1) in
            case fst (fn e (clock s)) of
              Resolved x \<Rightarrow>
                if rejects v x
                then execLoop v (i + 1) rest (errs @ [(name e, ''Validation failed'')])
                       (recordFailure (name e) s2)
                else (Inr \<lparr>result = x, source = name e, fallbacksUsed = i\<rparr>,
                      recordSuccess (name e) s2)
            | Rejected err \<Rightarrow>
                execLoop v (i + 1) rest (errs @ [(name e, reasonOf err)])
                  (recordFailure (name e) s2)))"
  by (simp add: Let_def case_prod_beta split: settled.splits)

lemma execLoop_ConsE:
  assumes run: "execLoop v i (e # rest) errs s = (res, s')"
  obtains
    (skip) s1 where "isCircuitOpen (name e) s = (True, s1)" and "trace s1 = trace s"
      and "clock s1 = clock s"
      and "execLoop v (i + 1) rest (errs @ [(name e, ''Circuit breaker open'')]) s1 = (res, s')"
  | (fail) s3 reason where "fst (isCircuitOpen (name e) s) = False"
      and "failsWith v (fst (fn e (clock s))) reason"
      and "trace s3 = trace s @ [Invoked i (clock s), RecordedFailure (name e)]"
      and "execLoop v (i + 1) rest (errs @ [(name e, reason)]) s3 = (res, s')"
  | (succ) x where "fst (isCircuitOpen (name e) s) = False"
      and "fst (fn e (clock s)) = Resolved x" and "\<not> rejects v x"
      and "res = Inr \<lparr>result = x, source = name e, fallbacksUsed = i\<rparr>"
      and "trace s' = trace s @ [Invoked i (clock s), RecordedSuccess (name e)]"
proof -
  define s1 where "s1 = snd (isCircuitOpen (name e) s)"
  define s2 where "s2 = snd (invoke i (fn e) s1)"
  have t1: "trace s1 = trace s" and c1: "clock s1 = clock s"
    by (simp_all add: s1_def)
  have t2: "trace (recordFailure (name e) s2)
            = trace s @ [Invoked i (clock s), RecordedFailure (name e)]"
    and t3: "trace (recordSuccess (name e) s2)
            = trace s @ [Invoked i (clock s), RecordedSuccess (name e)]"
    by (simp_all add: s2_def t1 c1)
  show ?thesis
  proof (cases "fst (isCircuitOpen (name e) s)")
    case True
    then have "isCircuitOpen (name e) s = (True, s1)"
      by (simp add: s1_def prod_eq_iff)
    moreover from run True
    have "execLoop v (i + 1) rest (errs @ [(name e, ''Circuit breaker open'')]) s1 = (res, s')"
      by (simp add: execLoop_Cons s1_def del: execLoop.simps)
    ultimately show ?thesis using t1 c1 by (metis skip)
  next
    case closed: False
    show ?thesis
    proof (cases "fst (fn e (clock s))")
      case (Resolved x)
      show ?thesis
      proof (cases "rejects v x")
        case True
        have "failsWith v (fst (fn e (clock s))) ''Validation failed''"
          using Resolved True by (simp add: failsWith_def)
        moreover from run closed Resolved True
        have "execLoop v (i + 1) rest (errs @ [(name e, ''Validation failed'')])
                (recordFailure (name e) s2) = (res, s')"
          by (simp add: execLoop_Cons s1_def s2_def del: execLoop.simps)
        ultimately show ?thesis using closed t2 by (metis fail)
      next
        case False
        from run closed Resolved False
        have "res = Inr \<lparr>result = x, source = name e, fallbacksUsed = i\<rparr>"
          and "s' = recordSuccess (name e) s2"
          by (auto simp add: execLoop_Cons s1_def s2_def simp del: execLoop.simps)
        then show ?thesis using closed Resolved False t3 by (metis succ)
      qed
    next
      case (Rejected err)
      have "failsWith v (fst (fn e (clock s))) (reasonOf err)"
        using Rejected by (simp add: failsWith_def)
      moreover from run closed Rejected
      have "execLoop v (i + 1) rest (errs @ [(name e, reasonOf err)])
              (recordFailure (name e) s2) = (res, s')"
        by (simp add: execLoop_Cons s1_def s2_def del: execLoop.simps)
      ultimately show ?thesis using closed t2 by (metis fail)
    qed
  qed
qed

lemma set_invokedIdx: "set (invokedIdx es) = {i. \<exists>t. Invoked i t \<in> set es}"
  by (induction es rule: invokedIdx.induct) auto

lemma newEvents_same: "trace s1 = trace s \<Longrightarrow> newEvents s s' = newEvents s1 s'"
  by (simp add: newEvents_def)

lemma newEvents_app:
  "trace s3 = trace s @ pre \<Longrightarrow> trace s' = trace s3 @ newEvents s3 s'
     \<Longrightarrow> newEvents s s' = pre @ newEvents s3 s' \<and> trace s' = trace s @ newEvents s s'"
proof -
  assume a: "trace s3 = trace s @ pre" and b: "trace s' = trace s3 @ newEvents s3 s'"
  from a b have "trace s' = trace s @ (pre @ newEvents s3 s')" by simp
  then have "newEvents s s' = pre @ newEvents s3 s'"
    unfolding newEvents_def[of s s'] by simp
  with \<open>trace s' = trace s @ (pre @ newEvents s3 s')\<close> show ?thesis by simp
qed

lemma newEvents_eq: "trace s' = trace s @ evs \<Longrightarrow> newEvents s s' = evs"
  by (simp add: newEvents_def)

lemma drop_ConsD:
  "drop i xs = e # rest \<Longrightarrow> i < length xs \<and> e = xs ! i \<and> rest = drop (Suc i) xs"
  by (metis Cons_nth_drop_Suc drop_all list.distinct(1) list.inject not_le_imp_less)

lemma execLoop_order:
  "srcs = drop i all \<Longrightarrow> execLoop v i srcs errs s = (res, s') \<Longrightarrow>
     trace s' = trace s @ newEvents s s'
     \<and> sorted_wrt (<) (invokedIdx (newEvents s s'))
     \<and> (\<forall>j \<in> set (invokedIdx (newEvents s s')). i \<le> j \<and> j < length all)"
proof (induction srcs arbitrary: i errs s)
  case Nil
  then show ?case by (simp add: newEvents_def)
next
  case (Cons e rest)
  from Cons.prems(1) have d: "i < length all" "e = all ! i" "rest = drop (Suc i) all"
    using drop_ConsD[of i all e rest] by simp_all
  from Cons.prems(2) show ?case
  proof (cases rule: execLoop_ConsE)
    case (skip s1)
    from Cons.IH[OF d(3)] skip(4)
    have ih: "trace s' = trace s1 @ newEvents s1 s'"
      "sorted_wrt (<) (invokedIdx (newEvents s1 s'))"
      "\<forall>j \<in> set (invokedIdx (newEvents s1 s')). Suc i \<le> j \<and> j < length all"
      by simp_all
    have "newEvents s s' = newEvents s1 s'"
      using skip(2) by (rule newEvents_same)
    with ih skip(2) show ?thesis by auto
  next
    case (fail s3 reason)
    from Cons.IH[OF d(3)] fail(4)
    have ih: "trace s' = trace s3 @ newEvents s3 s'"
      "sorted_wrt (<) (invokedIdx (newEvents s3 s'))"
      "\<forall>j \<in> set (invokedIdx (newEvents s3 s')). Suc i \<le> j \<and> j < length all"
      by simp_all
    from newEvents_app[OF fail(3) ih(1)]
    have ne: "newEvents s s' = [Invoked i (clock s), RecordedFailure (name e)] @ newEvents s3 s'"
      and tr: "trace s' = trace s @ newEvents s s'" by simp_all
    show ?thesis using ih(2,3) d(1) tr by (auto simp: ne)
  next
    case (succ x)
    have "newEvents s s' = [Invoked i (clock s), RecordedSuccess (name e)]"
      using succ(5) by (rule newEvents_eq)
    then show ?thesis using succ(5) d(1) by simp
  qed
qed

lemma failsWith_failedOutcome: "failsWith v r reason \<Longrightarrow> failedOutcome v r"
  by (auto simp: failsWith_def failedOutcome_def split: settled.splits)

lemma execLoop_success:
  "srcs = drop i all \<Longrightarrow> execLoop v i srcs errs s = (Inr out, s') \<Longrightarrow>
     i \<le> fallbacksUsed out \<and> fallbacksUsed out < length all
     \<and> source out = name (all ! fallbacksUsed out)
     \<and> \<not> rejects v (result out)
     \<and> (\<exists>pre t. newEvents s s' = pre @ [Invoked (fallbacksUsed out) t,
                                          RecordedSuccess (name (all ! fallbacksUsed out))]
           \<and> fst (fn (all ! fallbacksUsed out) t) = Resolved (result out))"
proof (induction srcs arbitrary: i errs s)
  case Nil
  then show ?case by simp
next
  case (Cons e rest)
  from Cons.prems(1) have d: "i < length all" "e = all ! i" "rest = drop (Suc i) all"
    using drop_ConsD[of i all e rest] by simp_all
  from Cons.prems(2) show ?case
  proof (cases rule: execLoop_ConsE)
    case (skip s1)
    have ne: "newEvents s s' = newEvents s1 s'"
      using skip(2) by (rule newEvents_same)
    from Cons.IH[OF d(3)] skip(4) show ?thesis
      unfolding ne by fastforce
  next
    case (fail s3 reason)
    from execLoop_order[OF d(3)] fail(4)
    have "trace s' = trace s3 @ newEvents s3 s'" by simp
    from newEvents_app[OF fail(3) this]
    have ne: "newEvents s s' = [Invoked i (clock s), RecordedFailure (name e)] @ newEvents s3 s'"
      by simp
    from Cons.IH[OF d(3)] fail(4)
    have ih: "Suc i \<le> fallbacksUsed out \<and> fallbacksUsed out < length all
     \<and> source out = name (all ! fallbacksUsed out)
     \<and> \<not> rejects v (result out)
     \<and> (\<exists>pre t. newEvents s3 s' = pre @ [Invoked (fallbacksUsed out) t,
                                          RecordedSuccess (name (all ! fallbacksUsed out))]
           \<and> fst (fn (all ! fallbacksUsed out) t) = Resolved (result out))"
      by simp
    then obtain pre t where
      "newEvents s3 s' = pre @ [Invoked (fallbacksUsed out) t,
                                          RecordedSuccess (name (all ! fallbacksUsed out))]"
      "fst (fn (all ! fallbacksUsed out) t) = Resolved (result out)" by blast
    then have "newEvents s s' = ([Invoked i (clock s), RecordedFailure (name e)] @ pre)
         @ [Invoked (fallbacksUsed out) t, RecordedSuccess (name (all ! fallbacksUsed out))]
        \<and> fst (fn (all ! fallbacksUsed out) t) = Resolved (result out)"
      by (simp add: ne)
    then show ?thesis using ih by (metis Suc_leD)
  next
    case (succ x)
    have "newEvents s s' = [] @ [Invoked i (clock s), RecordedSuccess (name e)]"
      using succ(5) by (simp add: newEvents_eq)
    then show ?thesis using succ(2,3,4) d(1,2) by (metis FallbackResult.select_convs(1,2,3) le_refl sum.inject(2))
  qed
qed

lemma execLoop_earlier_failed:
  "srcs = drop i all \<Longrightarrow> execLoop v i srcs errs s = (Inr out, s') \<Longrightarrow>
     Invoked j t \<in> set (newEvents s s') \<Longrightarrow>
     j \<le> fallbacksUsed out \<and>
     (j < fallbacksUsed out \<longrightarrow>
       failedOutcome v (fst (fn (all ! j) t))
       \<and> (\<exists>pre post. newEvents s s'
             = pre @ [Invoked j t, RecordedFailure (name (all ! j))] @ post))"
proof (induction srcs arbitrary: i errs s)
  case Nil
  then show ?case by simp
next
  case (Cons e rest)
  from Cons.prems(1) have d: "i < length all" "e = all ! i" "rest = drop (Suc i) all"
    using drop_ConsD[of i all e rest] by simp_all
  from d(3) have d3: "rest = drop (i + 1) all" by simp
  from Cons.prems(2) show ?case
  proof (cases rule: execLoop_ConsE)
    case (skip s1)
    have ne: "newEvents s s' = newEvents s1 s'"
      using skip(2) by (rule newEvents_same)
    from Cons.IH[OF d3 skip(4)] Cons.prems(3) show ?thesis
      unfolding ne by simp
  next
    case (fail s3 reason)
    from execLoop_order[OF d(3)] fail(4)
    have "trace s' = trace s3 @ newEvents s3 s'" by simp
    from newEvents_app[OF fail(3) this]
    have ne: "newEvents s s' = [Invoked i (clock s), RecordedFailure (name e)] @ newEvents s3 s'"
      by simp
    from execLoop_success[OF d3 fail(4)] have k: "Suc i \<le> fallbacksUsed out" by simp
    from Cons.prems(3) ne
    consider (here) "j = i" "t = clock s" | (later) "Invoked j t \<in> set (newEvents s3 s')"
      by auto
    then show ?thesis
    proof cases
      case here
      have "newEvents s s' = [] @ [Invoked j t, RecordedFailure (name (all ! j))] @ newEvents s3 s'"
        using ne here d(2) by simp
      moreover have "failedOutcome v (fst (fn (all ! j) t))"
        using fail(2) here d(2) by (auto dest: failsWith_failedOutcome)
      ultimately show ?thesis using k here by (metis Suc_leD)
    next
      case later
      from Cons.IH[OF d3 fail(4) later]
      have ih: "j \<le> fallbacksUsed out" "j < fallbacksUsed out \<longrightarrow>
       failedOutcome v (fst (fn (all ! j) t))
       \<and> (\<exists>pre post. newEvents s3 s'
             = pre @ [Invoked j t, RecordedFailure (name (all ! j))] @ post)" by simp_all
      show ?thesis
      proof (intro conjI impI)
        show "j \<le> fallbacksUsed out" by (rule ih(1))
      next
        assume "j < fallbacksUsed out"
        with ih(2) show "failedOutcome v (fst (fn (all ! j) t))" by simp
      next
        assume "j < fallbacksUsed out"
        with ih(2) obtain pre post where
          "newEvents s3 s' = pre @ [Invoked j t, RecordedFailure (name (all ! j))] @ post"
          by blast
        then have "newEvents s s' = ([Invoked i (clock s), RecordedFailure (name e)] @ pre)
             @ [Invoked j t, RecordedFailure (name (all ! j))] @ post"
          by (simp add: ne)
        then show "\<exists>pre post. newEvents s s'
             = pre @ [Invoked j t, RecordedFailure (name (all ! j))] @ post" by blast
      qed
    qed
  next
    case (succ x)
    have "newEvents s s' = [Invoked i (clock s), RecordedSuccess (name e)]"
      using succ(5) by (simp add: newEvents_eq)
    with Cons.prems(3) succ(4) show ?thesis by simp
  qed
qed

lemma execLoop_thrown_failed:
  "srcs = drop i all \<Longrightarrow> execLoop v i srcs errs s = (Inl err, s') \<Longrightarrow>
     Invoked j t \<in> set (newEvents s s') \<Longrightarrow>
     failedOutcome v (fst (fn (all ! j) t))
     \<and> (\<exists>pre post. newEvents s s'
             = pre @ [Invoked j t, RecordedFailure (name (all ! j))] @ post)"
proof (induction srcs arbitrary: i errs s)
  case Nil
  then show ?case by (simp add: newEvents_def)
next
  case (Cons e rest)
  from Cons.prems(1) have d: "i < length all" "e = all ! i" "rest = drop (Suc i) all"
    using drop_ConsD[of i all e rest] by simp_all
  from d(3) have d3: "rest = drop (i + 1) all" by simp
  from Cons.prems(2) show ?case
  proof (cases rule: execLoop_ConsE)
    case (skip s1)
    have ne: "newEvents s s' = newEvents s1 s'"
      using skip(2) by (rule newEvents_same)
    from Cons.IH[OF d3 skip(4)] Cons.prems(3) show ?thesis
      unfolding ne by simp
  next
    case (fail s3 reason)
    from execLoop_order[OF d(3)] fail(4)
    have "trace s' = trace s3 @ newEvents s3 s'" by simp
    from newEvents_app[OF fail(3) this]
    have ne: "newEvents s s' = [Invoked i (clock s), RecordedFailure (name e)] @ newEvents s3 s'"
      by simp
    from Cons.prems(3) ne
    consider (here) "j = i" "t = clock s" | (later) "Invoked j t \<in> set (newEvents s3 s')"
      by auto
    then show ?thesis
    proof cases
      case here
      have "newEvents s s' = [] @ [Invoked j t, RecordedFailure (name (all ! j))] @ newEvents s3 s'"
        using ne here d(2) by simp
      moreover have "failedOutcome v (fst (fn (all ! j) t))"
        using fail(2) here d(2) by (auto dest: failsWith_failedOutcome)
      ultimately show ?thesis by blast
    next
      case later
      from Cons.IH[OF d3 fail(4) later]
      obtain pre post where ih: "failedOutcome v (fst (fn (all ! j) t))"
        "newEvents s3 s' = pre @ [Invoked j t, RecordedFailure (name (all ! j))] @ post"
        by blast
      then have "newEvents s s' = ([Invoked i (clock s), RecordedFailure (name e)] @ pre)
             @ [Invoked j t, RecordedFailure (name (all ! j))] @ post"
        by (simp add: ne)
      with ih(1) show ?thesis by blast
    qed
  next
    case (succ x)
    then show ?thesis by simp
  qed
qed

lemma execLoop_all_failed:
  "srcs = drop i all \<Longrightarrow> execLoop v i srcs errs s = (Inl err, s') \<Longrightarrow>
     \<exists>reasons. length reasons = length srcs
       \<and> err = allFailed (errs @ zip (map name srcs) reasons)
       \<and> (\<forall>j < length srcs.
             (reasons ! j = ''Circuit breaker open''
               \<and> (\<forall>t. Invoked (i + j) t \<notin> set (newEvents s s')))
           \<or> (\<exists>t. Invoked (i + j) t \<in> set (newEvents s s')
                 \<and> failsWith v (fst (fn (srcs ! j) t)) (reasons ! j)))"
proof (induction srcs arbitrary: i errs s)
  case Nil
  then show ?case by simp
next
  case (Cons e rest)
  from Cons.prems(1) have d: "i < length all" "e = all ! i" "rest = drop (Suc i) all"
    using drop_ConsD[of i all e rest] by simp_all
  from d(3) have d3: "rest = drop (i + 1) all" by simp
  from Cons.prems(2) show ?case
  proof (cases rule: execLoop_ConsE)
    case (skip s1)
    have ne: "newEvents s s' = newEvents s1 s'"
      using skip(2) by (rule newEvents_same)
    from execLoop_order[OF d(3)] skip(4)
    have rng: "\<forall>j \<in> set (invokedIdx (newEvents s1 s')). Suc i \<le> j" by simp
    have noti: "\<forall>t. Invoked i t \<notin> set (newEvents s s')"
      using rng unfolding ne set_invokedIdx by fastforce
    from Cons.IH[OF d3 skip(4)] obtain reasons where ih:
      "length reasons = length rest"
      "err = allFailed ((errs @ [(name e, ''Circuit breaker open'')]) @ zip (map name rest) reasons)"
      "\<forall>j < length rest.
             (reasons ! j = ''Circuit breaker open''
               \<and> (\<forall>t. Invoked (i + 1 + j) t \<notin> set (newEvents s1 s')))
           \<or> (\<exists>t. Invoked (i + 1 + j) t \<in> set (newEvents s1 s')
                 \<and> failsWith v (fst (fn (rest ! j) t)) (reasons ! j))"
      by blast
    let ?rs = "''Circuit breaker open'' # reasons"
    have "length ?rs = length (e # rest)" using ih(1) by simp
    moreover have "err = allFailed (errs @ zip (map name (e # rest)) ?rs)"
      using ih(2) by simp
    moreover have "\<forall>j < length (e # rest).
             (?rs ! j = ''Circuit breaker open''
               \<and> (\<forall>t. Invoked (i + j) t \<notin> set (newEvents s s')))
           \<or> (\<exists>t. Invoked (i + j) t \<in> set (newEvents s s')
                 \<and> failsWith v (fst (fn ((e # rest) ! j) t)) (?rs ! j))"
    proof (intro allI impI)
      fix j assume "j < length (e # rest)"
      show "(?rs ! j = ''Circuit breaker open''
               \<and> (\<forall>t. Invoked (i + j) t \<notin> set (newEvents s s')))
           \<or> (\<exists>t. Invoked (i + j) t \<in> set (newEvents s s')
                 \<and> failsWith v (fst (fn ((e # rest) ! j) t)) (?rs ! j))"
      proof (cases j)
        case 0
        then show ?thesis using noti by simp
      next
        case (Suc j')
        with \<open>j < length (e # rest)\<close> have "j' < length rest" by simp
        with ih(3) show ?thesis unfolding ne Suc by simp
      qed
    qed
    ultimately show ?thesis by blast
  next
    case (fail s3 reason)
    from execLoop_order[OF d(3)] fail(4)
    have "trace s' = trace s3 @ newEvents s3 s'" by simp
    from newEvents_app[OF fail(3) this]
    have ne: "newEvents s s' = [Invoked i (clock s), RecordedFailure (name e)] @ newEvents s3 s'"
      by simp
    from Cons.IH[OF d3 fail(4)] obtain reasons where ih:
      "length reasons = length rest"
      "err = allFailed ((errs @ [(name e, reason)]) @ zip (map name rest) reasons)"
      "\<forall>j < length rest.
             (reasons ! j = ''Circuit breaker open''
               \<and> (\<forall>t. Invoked (i + 1 + j) t \<notin> set (newEvents s3 s')))
           \<or> (\<exists>t. Invoked (i + 1 + j) t \<in> set (newEvents s3 s')
                 \<and> failsWith v (fst (fn (rest ! j) t)) (reasons ! j))"
      by blast
    let ?rs = "reason # reasons"
    have "length ?rs = length (e # rest)" using ih(1) by simp
    moreover have "err = allFailed (errs @ zip (map name (e # rest)) ?rs)"
      using ih(2) by simp
    moreover have "\<forall>j < length (e # rest).
             (?rs ! j = ''Circuit breaker open''
               \<and> (\<forall>t. Invoked (i + j) t \<notin> set (newEvents s s')))
           \<or> (\<exists>t. Invoked (i + j) t \<in> set (newEvents s s')
                 \<and> failsWith v (fst (fn ((e # rest) ! j) t)) (?rs ! j))"
    proof (intro allI impI)
      fix j assume "j < length (e # rest)"
      show "(?rs ! j = ''Circuit breaker open''
               \<and> (\<forall>t. Invoked (i + j) t \<notin> set (newEvents s s')))
           \<or> (\<exists>t. Invoked (i + j) t \<in> set (newEvents s s')
                 \<and> failsWith v (fst (fn ((e # rest) ! j) t)) (?rs ! j))"
      proof (cases j)
        case 0
        then show ?thesis using fail(2) by (auto simp: ne)
      next
        case (Suc j')
        with \<open>j < length (e # rest)\<close> have "j' < length rest" by simp
        with ih(3) show ?thesis unfolding ne Suc by simp
      qed
    qed
    ultimately show ?thesis by blast
  next
    case (succ x)
    then show ?thesis by simp
  qed
qed

section \<open>The aggregate message, and thrown against refused values\<close>

lemma joinStr_contains:
  "j < length xs \<Longrightarrow> \<exists>a b. joinStr sep xs = a @ xs ! j @ b"
proof (induction sep xs arbitrary: j rule: joinStr.induct)
  case (1 sep)
  then show ?case by simp
next
  case (2 sep x)
  then have "joinStr sep [x] = [] @ [x] ! j @ []" by simp
  then show ?case by blast
next
  case (3 sep x y ys)
  show ?case
  proof (cases j)
    case 0
    then have "joinStr sep (x # y # ys) = [] @ (x # y # ys) ! j @ (sep @ joinStr sep (y # ys))"
      by simp
    then show ?thesis by blast
  next
    case (Suc j')
    with "3.prems" have "j' < length (y # ys)" by simp
    from "3.IH"[OF this] obtain a b where "joinStr sep (y # ys) = a @ (y # ys) ! j' @ b"
      by blast
    then have "joinStr sep (x # y # ys) = (x @ sep @ a) @ (x # y # ys) ! j @ b"
      using Suc by simp
    then show ?thesis by blast
  qed
qed

lemma execLoop_throwInstead:
  "execLoop v i (map (\<lambda>e. e\<lparr>fn := throwInstead v (fn e)\<rparr>) srcs) errs s
     = execLoop v i srcs errs s"
proof (induction srcs arbitrary: i errs s)
  case Nil
  then show ?case by simp
next
  case (Cons e rest)
  have inv: "snd (invoke i (throwInstead v (fn e)) s1) = snd (invoke i (fn e) s1)" for s1
    by (simp add: invoke_def throwInstead_def Let_def split: prod.splits settled.splits)
  show ?case
    unfolding list.map execLoop_Cons
    by (simp add: Cons.IH inv throwInstead_def Let_def split: prod.splits settled.splits)
qed

section \<open>A circuit that stays open during a run\<close>

lemma isCircuitOpen_in_window:
  "circuitBreakers s p = Some c \<Longrightarrow> isOpen c \<Longrightarrow> clock s - lastFailure c \<le> RECOVERY_TIME
     \<Longrightarrow> isCircuitOpen p s = (True, s)"
  by (simp add: isCircuitOpen_def getCircuit_def)

lemma isCircuitOpen_other:
  "q \<noteq> p \<Longrightarrow> circuitBreakers (snd (isCircuitOpen q s)) p = circuitBreakers s p"
  by (simp add: isCircuitOpen_def getCircuit_def putCircuit_def split: option.splits)

lemma recordFailure_other:
  "q \<noteq> p \<Longrightarrow> circuitBreakers (recordFailure q s) p = circuitBreakers s p"
  by (simp add: recordFailure_def getCircuit_def putCircuit_def logEvent_def Let_def
      split: option.splits)

lemma recordSuccess_other:
  "q \<noteq> p \<Longrightarrow> circuitBreakers (recordSuccess q s) p = circuitBreakers s p"
  by (simp add: recordSuccess_def getCircuit_def putCircuit_def logEvent_def Let_def
      split: option.splits)

lemma clock_recordSuccess [simp]: "clock (recordSuccess p s) = clock s"
  by (simp add: recordSuccess_def getCircuit_def putCircuit_def logEvent_def Let_def
      split: option.splits)

lemma execLoop_open_skipped:
  assumes "circuitBreakers s p = Some c" and "isOpen c"
    and "clock s - lastFailure c \<le> RECOVERY_TIME"
    and "srcs = drop i all" and "execLoop v i srcs errs s = (res, s')"
    and "\<forall>j t. Invoked j t \<in> set (newEvents s s')
            \<longrightarrow> snd (fn (all ! j) t) - lastFailure c \<le> RECOVERY_TIME"
  shows "circuitBreakers s' p = Some c
       \<and> (\<forall>j t. Invoked j t \<in> set (newEvents s s') \<longrightarrow> name (all ! j) \<noteq> p)
       \<and> RecordedFailure p \<notin> set (newEvents s s')
       \<and> RecordedSuccess p \<notin> set (newEvents s s')"
  using assms
proof (induction srcs arbitrary: i errs s)
  case Nil
  then show ?case by (simp add: newEvents_def)
next
  case (Cons e rest)
  from Cons.prems(4) have d: "i < length all" "e = all ! i" "rest = drop (Suc i) all"
    using drop_ConsD[of i all e rest] by simp_all
  from d(3) have d3: "rest = drop (i + 1) all" by simp
  define s1 where "s1 = snd (isCircuitOpen (name e) s)"
  define s2 where "s2 = snd (invoke i (fn e) s1)"
  have s1: "circuitBreakers s1 p = Some c" "clock s1 = clock s" "trace s1 = trace s"
    using Cons.prems(1-3)
    by (cases "name e = p"; simp add: s1_def isCircuitOpen_in_window isCircuitOpen_other)+
  show ?case
  proof (cases "fst (isCircuitOpen (name e) s)")
    case True
    with Cons.prems(5)
    have run: "execLoop v (i + 1) rest (errs @ [(name e, ''Circuit breaker open'')]) s1 = (res, s')"
      by (simp add: execLoop_Cons s1_def del: execLoop.simps)
    have ne: "newEvents s s' = newEvents s1 s'"
      using s1(3) by (rule newEvents_same)
    have w1: "clock s1 - lastFailure c \<le> RECOVERY_TIME"
      using s1(2) Cons.prems(3) by simp
    from Cons.IH[OF s1(1) Cons.prems(2) w1 d3 run] Cons.prems(6)
    show ?thesis unfolding ne by simp
  next
    case closed: False
    then have np: "name e \<noteq> p"
      using Cons.prems(1-3) by (auto simp: isCircuitOpen_in_window)
    have tr2: "trace s2 = trace s @ [Invoked i (clock s)]"
      by (simp add: s2_def s1)
    have ck2: "clock s2 = snd (fn e (clock s))"
      by (simp add: s2_def s1)
    have cb2: "circuitBreakers s2 p = Some c"
      using s1 by (simp add: s2_def)
    show ?thesis
    proof (cases "failedOutcome v (fst (fn e (clock s)))")
      case True
      then obtain reason where run:
        "execLoop v (i + 1) rest (errs @ [(name e, reason)]) (recordFailure (name e) s2) = (res, s')"
        using Cons.prems(5) closed
        by (auto simp add: execLoop_Cons s1_def s2_def failedOutcome_def
            simp del: execLoop.simps split: settled.splits)
      let ?s3 = "recordFailure (name e) s2"
      have tr3: "trace ?s3 = trace s @ [Invoked i (clock s), RecordedFailure (name e)]"
        by (simp add: tr2)
      from execLoop_order[OF d(3)] run
      have "trace s' = trace ?s3 @ newEvents ?s3 s'" by simp
      from newEvents_app[OF tr3 this]
      have ne: "newEvents s s' = [Invoked i (clock s), RecordedFailure (name e)] @ newEvents ?s3 s'"
        by simp
      from Cons.prems(6) have "snd (fn (all ! i) (clock s)) - lastFailure c \<le> RECOVERY_TIME"
        unfolding ne by simp
      then have s3: "circuitBreakers ?s3 p = Some c" "clock ?s3 - lastFailure c \<le> RECOVERY_TIME"
        using cb2 ck2 np d(2) by (simp_all add: recordFailure_other)
      from Cons.prems(6) have later: "\<forall>j t. Invoked j t \<in> set (newEvents ?s3 s')
            \<longrightarrow> snd (fn (all ! j) t) - lastFailure c \<le> RECOVERY_TIME"
        unfolding ne by simp
      from Cons.IH[OF s3(1) Cons.prems(2) s3(2) d3 run later] np d(2)
      show ?thesis unfolding ne by auto
    next
      case False
      then obtain x where x: "fst (fn e (clock s)) = Resolved x" "\<not> rejects v x"
        by (auto simp: failedOutcome_def split: settled.splits)
      with Cons.prems(5) closed have s': "s' = recordSuccess (name e) s2"
        by (auto simp add: execLoop_Cons s1_def s2_def simp del: execLoop.simps)
      have "trace s' = trace s @ [Invoked i (clock s), RecordedSuccess (name e)]"
        by (simp add: s' tr2)
      then have ne: "newEvents s s' = [Invoked i (clock s), RecordedSuccess (name e)]"
        by (rule newEvents_eq)
      show ?thesis unfolding ne using np cb2 d(2) by (simp add: s' recordSuccess_other)
    qed
  qed
qed


lemma circuitOf_clock [simp]: "circuitOf (s\<lparr>clock := t\<rparr>) p = circuitOf s p"
  by (simp add: circuitOf_def getCircuit_def split: option.splits)

lemma circuitBreakers_recordFailure:
  "circuitBreakers (recordFailure p s) p = Some (circuitOf (recordFailure p s) p)"
  by (simp add: circuitOf_def recordFailure_def getCircuit_def putCircuit_def logEvent_def
      Let_def split: option.splits)

lemma execLoop_skip_step:
  "circuitBreakers st (name e) = Some c \<Longrightarrow> isOpen c
     \<Longrightarrow> clock st - lastFailure c \<le> RECOVERY_TIME
     \<Longrightarrow> execLoop v i (e # rest) errs st
         = execLoop v (i + 1) rest (errs @ [(name e, ''Circuit breaker open'')]) st"
  by (simp add: execLoop_Cons isCircuitOpen_in_window del: execLoop.simps)

section \<open>Evaluation on concrete inputs, and single steps of the loop\<close>

lemmas run_simps = executeWithFallback_def isCircuitOpen_def getCircuit_def putCircuit_def
  logEvent_def recordFailure_def recordSuccess_def invoke_def newCircuit_def
  FAILURE_THRESHOLD_def RECOVERY_TIME_def rejects_def reasonOf_def errorToString_def
  allFailed_def errorSummary_def Let_def

lemma execLoop_rejected_step:
  "fst (isCircuitOpen (name e) s) = False \<Longrightarrow> fst (fn e (clock s)) = Resolved x
     \<Longrightarrow> rejects v x
     \<Longrightarrow> execLoop v i (e # rest) errs s
         = execLoop v (i + 1) rest (errs @ [(name e, ''Validation failed'')])
             (recordFailure (name e) (snd (invoke i (fn e) (snd (isCircuitOpen (name e) s)))))"
  by (simp add: execLoop_Cons del: execLoop.simps)

lemma execLoop_thrown_step:
  "fst (isCircuitOpen (name e) s) = False \<Longrightarrow> fst (fn e (clock s)) = Rejected err
     \<Longrightarrow> execLoop v i (e # rest) errs s
         = execLoop v (i + 1) rest (errs @ [(name e, reasonOf err)])
             (recordFailure (name e) (snd (invoke i (fn e) (snd (isCircuitOpen (name e) s)))))"
  by (simp add: execLoop_Cons del: execLoop.simps)

lemma noSourceMessage_nonempty [simp]: "noSourceMessage \<noteq> []"
  by (simp add: noSourceMessage_def)

section \<open>Facts about the L2 TVL thunks\<close>

lemma asciiLowerCase_Arbitrum: "asciiLowerCase ''Arbitrum'' = ''arbitrum''"
  "asciiLowerCase ''arbitrum'' = ''arbitrum''"
  by code_simp+

lemma asciiLowerCase_newchain: "asciiLowerCase ''NewChain'' = ''newchain''"
  "asciiLowerCase ''newchain'' = ''newchain''"
  by code_simp+

lemma growthepieTvl_key:
  "getFundamentals env t = (Resolved m, t') \<Longrightarrow> m (toLowerCase env nc) = Some metrics
     \<Longrightarrow> growthepieTvl env nc t
         = (if orZero (metrics ''tvl'') = 0 then (Rejected chainNotFound, t')
            else (Resolved \<lparr>tvl = orZero (metrics ''tvl''), breakdown = None\<rparr>, t'))"
  by (simp add: growthepieTvl_def getL2Chain_def)

lemma growthepieTvl_no_key:
  "getFundamentals env t = (Resolved m, t') \<Longrightarrow> m (toLowerCase env nc) = None
     \<Longrightarrow> growthepieTvl env nc t = (Rejected chainNotFound, t')"
  by (simp add: growthepieTvl_def getL2Chain_def)

lemma defillamaTvl_key:
  "getChains env t = (Resolved cs, t')
     \<Longrightarrow> find (\<lambda>x. toLowerCase env (chainName x) = nc) cs = Some e
     \<Longrightarrow> chainTvl e = Some x
     \<Longrightarrow> defillamaTvl env nc t
         = (if x = 0 then (Rejected chainNotFound, t')
            else (Resolved \<lparr>tvl = x, breakdown = None\<rparr>, t'))"
  by (simp add: defillamaTvl_def)

lemma defillamaTvl_no_entry:
  "getChains env t = (Resolved cs, t')
     \<Longrightarrow> find (\<lambda>x. toLowerCase env (chainName x) = nc) cs = None
     \<Longrightarrow> defillamaTvl env nc t = (Rejected chainNotFound, t')"
  by (simp add: defillamaTvl_def)

lemmas tvl_simps = getL2Tvl_def l2TvlSources_def growthepieTvl_def defillamaTvl_def
  getL2Chain_def validateTvl_def orZero_def chainNotFound_def

lemma growthepieTvl_resolved:
  "fst (growthepieTvl env nc t) = Resolved r \<Longrightarrow> tvl r \<noteq> 0"
  by (auto simp: growthepieTvl_def getL2Chain_def split: prod.splits settled.splits
      option.splits if_splits)

lemma defillamaTvl_resolved:
  "fst (defillamaTvl env nc t) = Resolved r \<Longrightarrow> tvl r \<noteq> 0"
  by (auto simp: defillamaTvl_def split: prod.splits settled.splits option.splits if_splits)

lemma l2Tvl_result_nonzero:
  assumes "fst (getL2Tvl env c s) = Inr out"
  shows "tvl out \<noteq> 0"
proof -
  let ?all = "l2TvlSources env (toLowerCase env c)" and ?v = "Some validateTvl"
  let ?run = "executeWithFallback \<lparr>sources = ?all, validate = ?v\<rparr> s"
  from assms obtain out' where o: "fst ?run = Inr out'" "tvl out = tvl (result out')"
    by (auto simp: getL2Tvl_def Let_def case_prod_beta split: sum.splits)
  then have loop: "execLoop ?v 0 ?all [] s = (Inr out', snd ?run)"
    by (metis FallbackOptions.select_convs(1,2) executeWithFallback_def prod.collapse)
  have d: "?all = drop 0 ?all" by simp
  from execLoop_success[OF d loop] obtain t where
    k: "fallbacksUsed out' < length ?all"
    and r: "fst (fn (?all ! fallbacksUsed out') t) = Resolved (result out')"
    by blast
  from k have "fallbacksUsed out' = 0 \<or> fallbacksUsed out' = 1"
    by (auto simp: l2TvlSources_def)
  with r have "tvl (result out') \<noteq> 0"
    by (auto simp: l2TvlSources_def dest: growthepieTvl_resolved defillamaTvl_resolved)
  with o(2) show ?thesis by simp
qed

lemma isCircuitOpen_closed:
  "\<not> isOpen (circuitOf s p) \<Longrightarrow> fst (isCircuitOpen p s) = False"
  by (simp add: isCircuitOpen_def circuitOf_def case_prod_beta)

lemma circuitOf_alt:
  "circuitOf s p = (case circuitBreakers s p of None \<Rightarrow> newCircuit | Some c \<Rightarrow> c)"
  by (simp add: circuitOf_def getCircuit_def split: option.splits)

lemma circuitOf_other:
  "q \<noteq> p \<Longrightarrow> circuitOf (recordFailure q s) p = circuitOf s p"
  "q \<noteq> p \<Longrightarrow> circuitOf (snd (isCircuitOpen q s)) p = circuitOf s p"
  "circuitOf (snd (invoke i f s)) p = circuitOf s p"
  by (simp_all add: circuitOf_alt recordFailure_other isCircuitOpen_other)

lemma l2Tvl_both_not_found:
  assumes g: "\<forall>t. fst (growthepieTvl env (toLowerCase env c) t) = Rejected chainNotFound"
    and l: "\<forall>t. fst (defillamaTvl env (toLowerCase env c) t) = Rejected chainNotFound"
  shows "\<exists>msg. fst (getL2Tvl env c s) = Inl (Error ''Error'' msg)"
    and "\<not> isOpen (circuitOf s ''growthepie'') \<Longrightarrow> \<not> isOpen (circuitOf s ''defillama'')
      \<Longrightarrow> fst (getL2Tvl env c s) = Inl (Error ''Error''
            ''All sources failed: growthepie: Chain not found; defillama: Chain not found'')"
proof -
  show "\<exists>msg. fst (getL2Tvl env c s) = Inl (Error ''Error'' msg)"
    using g l
    by (simp add: getL2Tvl_def l2TvlSources_def executeWithFallback_def execLoop_Cons
        allFailed_def Let_def case_prod_beta del: execLoop.simps)
       (simp add: allFailed_def)
next
  assume c1: "\<not> isOpen (circuitOf s ''growthepie'')" and c2: "\<not> isOpen (circuitOf s ''defillama'')"
  let ?s1 = "recordFailure ''growthepie''
       (snd (invoke 0 (growthepieTvl env (toLowerCase env c))
          (snd (isCircuitOpen ''growthepie'' s))))"
  have "\<not> isOpen (circuitOf ?s1 ''defillama'')"
    using c2 by (simp add: circuitOf_other)
  then have o2: "fst (isCircuitOpen ''defillama'' ?s1) = False"
    by (rule isCircuitOpen_closed)
  have o1: "fst (isCircuitOpen ''growthepie'' s) = False"
    using c1 by (rule isCircuitOpen_closed)
  have rn: "reasonOf chainNotFound = ''Chain not found''"
    by (simp add: reasonOf_def chainNotFound_def)
  show "fst (getL2Tvl env c s) = Inl (Error ''Error''
            ''All sources failed: growthepie: Chain not found; defillama: Chain not found'')"
    using g l o1 o2
    by (simp add: getL2Tvl_def l2TvlSources_def executeWithFallback_def execLoop_Cons rn
        Let_def case_prod_beta del: execLoop.simps)
       (simp add: allFailed_def errorSummary_def)
qed

text \<open>One run of \<^verbatim>\<open>getL2Tvl\<close> with neither circuit open, by what the two thunks do.\<close>

lemma l2Tvl_first:
  assumes gt: "growthepieTvl env (toLowerCase env c) (clock s)
        = (Resolved \<lparr>tvl = x, breakdown = None\<rparr>, t1)"
    and x: "x > 0"
    and c1: "\<not> isOpen (circuitOf s ''growthepie'')"
  shows "fst (getL2Tvl env c s)
     = Inr \<lparr>tvl = x, breakdown = None, tvlSource = ''growthepie'', tvlFallbacksUsed = 0\<rparr>"
proof -
  have o1: "fst (isCircuitOpen ''growthepie'' s) = False"
    using c1 by (rule isCircuitOpen_closed)
  have ok: "\<not> rejects (Some validateTvl) \<lparr>tvl = x, breakdown = None\<rparr>"
    using x by (simp add: rejects_def validateTvl_def)
  show ?thesis
    using o1 gt ok
    by (simp add: getL2Tvl_def l2TvlSources_def executeWithFallback_def execLoop_Cons
        Let_def case_prod_beta del: execLoop.simps)
qed

lemma l2Tvl_second:
  assumes gt: "growthepieTvl env (toLowerCase env c) (clock s) = (Rejected chainNotFound, t1)"
    and lt: "defillamaTvl env (toLowerCase env c) t1
        = (Resolved \<lparr>tvl = x, breakdown = None\<rparr>, t2)"
    and x: "x > 0"
    and c1: "\<not> isOpen (circuitOf s ''growthepie'')"
    and c2: "\<not> isOpen (circuitOf s ''defillama'')"
  shows "fst (getL2Tvl env c s)
     = Inr \<lparr>tvl = x, breakdown = None, tvlSource = ''defillama'', tvlFallbacksUsed = 1\<rparr>"
proof -
  let ?nc = "toLowerCase env c"
  let ?s1 = "recordFailure ''growthepie''
       (snd (invoke 0 (growthepieTvl env ?nc) (snd (isCircuitOpen ''growthepie'' s))))"
  have o1: "fst (isCircuitOpen ''growthepie'' s) = False"
    using c1 by (rule isCircuitOpen_closed)
  have "\<not> isOpen (circuitOf ?s1 ''defillama'')"
    using c2 by (simp add: circuitOf_other)
  then have o2: "fst (isCircuitOpen ''defillama'' ?s1) = False"
    by (rule isCircuitOpen_closed)
  have ck: "clock ?s1 = t1"
    by (simp add: gt)
  have ok: "\<not> rejects (Some validateTvl) \<lparr>tvl = x, breakdown = None\<rparr>"
    using x by (simp add: rejects_def validateTvl_def)
  show ?thesis
    using o1 o2 gt lt ck ok
    by (simp add: getL2Tvl_def l2TvlSources_def executeWithFallback_def execLoop_Cons
        Let_def case_prod_beta del: execLoop.simps)
qed

lemma l2Tvl_neither:
  assumes gt: "growthepieTvl env (toLowerCase env c) (clock s) = (Rejected chainNotFound, t1)"
    and lt: "defillamaTvl env (toLowerCase env c) t1 = (Rejected chainNotFound, t2)"
    and c1: "\<not> isOpen (circuitOf s ''growthepie'')"
    and c2: "\<not> isOpen (circuitOf s ''defillama'')"
  shows "fst (getL2Tvl env c s) = Inl (Error ''Error''
            ''All sources failed: growthepie: Chain not found; defillama: Chain not found'')"
proof -
  let ?nc = "toLowerCase env c"
  let ?s1 = "recordFailure ''growthepie''
       (snd (invoke 0 (growthepieTvl env ?nc) (snd (isCircuitOpen ''growthepie'' s))))"
  have o1: "fst (isCircuitOpen ''growthepie'' s) = False"
    using c1 by (rule isCircuitOpen_closed)
  have "\<not> isOpen (circuitOf ?s1 ''defillama'')"
    using c2 by (simp add: circuitOf_other)
  then have o2: "fst (isCircuitOpen ''defillama'' ?s1) = False"
    by (rule isCircuitOpen_closed)
  have ck: "clock ?s1 = t1"
    by (simp add: gt)
  have rn: "reasonOf chainNotFound = ''Chain not found''"
    by (simp add: reasonOf_def chainNotFound_def)
  show ?thesis
    using o1 o2 gt lt ck
    by (simp add: getL2Tvl_def l2TvlSources_def executeWithFallback_def execLoop_Cons rn
        Let_def case_prod_beta del: execLoop.simps)
       (simp add: allFailed_def errorSummary_def)
qed

lemma l2Tvl_falls_back:
  assumes g: "getFundamentals env (clock s) = (Resolved m, t1)"
      "m (toLowerCase env (toLowerCase env c)) = Some metrics" "metrics ''tvl'' = Some 0"
    and l: "getChains env t1 = (Resolved cs, t2)"
      "find (\<lambda>x. toLowerCase env (chainName x) = toLowerCase env c) cs = Some e"
      "chainTvl e = Some x" "x > 0"
    and c1: "\<not> isOpen (circuitOf s ''growthepie'')"
    and c2: "\<not> isOpen (circuitOf s ''defillama'')"
  shows "fst (getL2Tvl env c s)
     = Inr \<lparr>tvl = x, breakdown = None, tvlSource = ''defillama'', tvlFallbacksUsed = 1\<rparr>"
proof -
  have gt: "growthepieTvl env (toLowerCase env c) (clock s) = (Rejected chainNotFound, t1)"
    using growthepieTvl_key[OF g(1,2)] g(3) by (simp add: orZero_def)
  have lt: "defillamaTvl env (toLowerCase env c) t1
      = (Resolved \<lparr>tvl = x, breakdown = None\<rparr>, t2)"
    using defillamaTvl_key[OF l(1,2,3)] l(4) by simp
  from l2Tvl_second[OF gt lt l(4) c1 c2] show ?thesis .
qed

section \<open>Facts about binary64 rounding\<close>

lemma pow2_powi: "pow2 k = 2 powi k"
  by (simp add: pow2_def power_int_def inverse_eq_divide power_one_over)

lemma pow2_pos [simp]: "0 < pow2 k"
  by (simp add: pow2_powi zero_less_power_int)

lemma pow2_nonzero [simp]: "pow2 k \<noteq> 0"
  by (metis less_irrefl pow2_pos)

lemma pow2_mono: "a \<le> b \<Longrightarrow> pow2 a \<le> pow2 b"
  by (simp add: pow2_powi power_int_increasing)

lemma pow2_strict_mono: "a < b \<Longrightarrow> pow2 a < pow2 b"
  by (simp add: pow2_powi power_int_strict_increasing)

lemma pow2_add: "pow2 (a + b) = pow2 a * pow2 b"
  by (simp add: pow2_powi power_int_add)

lemma pow2_diff: "pow2 (a - b) = pow2 a / pow2 b"
  by (simp add: pow2_powi power_int_diff)

lemma pow2_nat: "pow2 (int n) = 2 ^ n"
  by (simp add: pow2_def)

lemma bitlen_pow2_bounds:
  assumes "0 < p"
  shows "pow2 (bitlen p - 1) \<le> of_int p" and "of_int p < pow2 (bitlen p)"
proof -
  from bitlen_bounds[OF assms]
  have b: "2 ^ nat (bitlen p - 1) \<le> p" "p < 2 ^ nat (bitlen p)" by simp_all
  have pos: "1 \<le> bitlen p"
    using assms bitlen_eq_zero_iff[of p] bitlen_nonneg[of p] by linarith
  have "(of_int (2 ^ nat (bitlen p - 1)) :: rat) \<le> of_int p"
    using b(1) by (simp only: of_int_le_iff)
  then show "pow2 (bitlen p - 1) \<le> of_int p"
    using pos by (simp add: pow2_def)
  have "(of_int p :: rat) < of_int (2 ^ nat (bitlen p))"
    using b(2) by (simp only: of_int_less_iff)
  then show "of_int p < pow2 (bitlen p)"
    using pos by (simp add: pow2_def)
qed

lemma ilog2_bounds:
  assumes "0 < a"
  shows "pow2 (ilog2 a) \<le> a \<and> a < pow2 (ilog2 a + 1)"
proof -
  obtain p q where pq: "quotient_of a = (p, q)" by (cases "quotient_of a")
  have q: "0 < q" by (rule quotient_of_denom_pos[OF pq])
  have a: "a = of_int p / of_int q" by (rule quotient_of_div[OF pq])
  have p: "0 < p"
    using assms q unfolding a by (simp add: zero_less_divide_iff)
  let ?d = "bitlen p - bitlen q"
  have qr: "(0::rat) < of_int q" using q by simp
  have up: "a < pow2 (?d + 1)"
  proof -
    have "of_int p < pow2 (bitlen p)" by (rule bitlen_pow2_bounds[OF p])
    moreover have "pow2 (bitlen q - 1) \<le> of_int q" by (rule bitlen_pow2_bounds[OF q])
    ultimately have "of_int p * pow2 (bitlen q - 1) < pow2 (bitlen p) * of_int q"
      using qr by (meson mult_less_le_imp_less pow2_pos less_imp_le of_int_0_le_iff p
          zero_less_mult_iff mult_strict_mono' order_less_le)
    then have "of_int p / of_int q < pow2 (bitlen p) / pow2 (bitlen q - 1)"
      using qr by (simp add: field_simps)
    also have "\<dots> = pow2 (?d + 1)"
      by (simp add: pow2_diff[symmetric] algebra_simps)
    finally show ?thesis unfolding a .
  qed
  have lo: "pow2 (?d - 1) < a"
  proof -
    have "pow2 (bitlen p - 1) \<le> of_int p" by (rule bitlen_pow2_bounds[OF p])
    moreover have "of_int q < pow2 (bitlen q)" by (rule bitlen_pow2_bounds[OF q])
    ultimately have "pow2 (bitlen p - 1) * of_int q < of_int p * pow2 (bitlen q)"
      using qr by (intro mult_le_less_imp_less) simp_all
    then have "pow2 (bitlen p - 1) / pow2 (bitlen q) < of_int p / of_int q"
      using qr by (simp add: field_simps)
    moreover have "pow2 (bitlen p - 1) / pow2 (bitlen q) = pow2 (?d - 1)"
      by (simp add: pow2_diff[symmetric] algebra_simps)
    ultimately show ?thesis unfolding a by simp
  qed
  show ?thesis
  proof (cases "pow2 ?d \<le> a")
    case True
    then have "ilog2 a = ?d" by (simp add: ilog2_def pq)
    with True up show ?thesis by simp
  next
    case False
    then have "ilog2 a = ?d - 1" by (simp add: ilog2_def pq)
    with False lo show ?thesis by simp
  qed
qed

lemma ilog2_eq:
  assumes "0 < a" and lo: "pow2 e \<le> a" and hi: "a < pow2 (e + 1)"
  shows "ilog2 a = e"
proof -
  from ilog2_bounds[OF assms(1)]
  have b: "pow2 (ilog2 a) \<le> a" "a < pow2 (ilog2 a + 1)" by simp_all
  have "\<not> e + 1 \<le> ilog2 a"
  proof
    assume "e + 1 \<le> ilog2 a"
    from pow2_mono[OF this] b(1) hi show False by simp
  qed
  moreover have "\<not> ilog2 a + 1 \<le> e"
  proof
    assume "ilog2 a + 1 \<le> e"
    from pow2_mono[OF this] b(2) lo show False by simp
  qed
  ultimately show ?thesis by simp
qed

lemma roundEven_eq:
  assumes "of_int n - 1 / 2 < x" and "x < of_int n + 1 / 2"
  shows "roundEven x = n"
proof (cases "of_int n \<le> x")
  case True
  then have f: "\<lfloor>x\<rfloor> = n" using assms(2) by (simp add: floor_eq_iff)
  show ?thesis using assms(2) by (simp add: roundEven_def f)
next
  case False
  then have f: "\<lfloor>x\<rfloor> = n - 1" using assms(1) by (simp add: floor_eq_iff)
  show ?thesis using assms(1) by (simp add: roundEven_def f)
qed

lemma int_le_of_half:
  "(of_int a :: rat) < of_int n + 1 / 2 \<Longrightarrow> a \<le> n"
  "(of_int n :: rat) - 1 / 2 < of_int b \<Longrightarrow> n \<le> b"
proof -
  assume h: "(of_int a :: rat) < of_int n + 1 / 2"
  show "a \<le> n"
  proof (rule ccontr)
    assume "\<not> a \<le> n"
    then have "n + 1 \<le> a" by simp
    then have "(of_int (n + 1) :: rat) \<le> of_int a" by (simp only: of_int_le_iff)
    with h show False by simp
  qed
next
  assume h: "(of_int n :: rat) - 1 / 2 < of_int b"
  show "n \<le> b"
  proof (rule ccontr)
    assume "\<not> n \<le> b"
    then have "b + 1 \<le> n" by simp
    then have "(of_int (b + 1) :: rat) \<le> of_int n" by (simp only: of_int_le_iff)
    with h show False by simp
  qed
qed

lemma fl_eqI:
  assumes q: "q \<noteq> 0"
    and lo: "pow2 e \<le> \<bar>q\<bar>" and hi: "\<bar>q\<bar> < pow2 (e + 1)"
    and e: "- 1022 \<le> e" "e \<le> 1022"
    and n: "of_int n - 1 / 2 < \<bar>q\<bar> / pow2 (e - 52)" "\<bar>q\<bar> / pow2 (e - 52) < of_int n + 1 / 2"
  shows "fl q = Fin (if q < 0 then - (of_int n * pow2 (e - 52)) else of_int n * pow2 (e - 52))"
proof -
  let ?ulp = "pow2 (e - 52)"
  have a: "0 < \<bar>q\<bar>" using q by simp
  have il: "ilog2 \<bar>q\<bar> = e" by (rule ilog2_eq[OF a lo hi])
  have mx: "max e (- 1022) = e" using e by simp
  have re: "roundEven (\<bar>q\<bar> / ?ulp) = n" by (rule roundEven_eq[OF n])
  have "pow2 e / ?ulp \<le> \<bar>q\<bar> / ?ulp"
    by (rule divide_right_mono[OF lo]) (simp add: less_imp_le)
  moreover have "pow2 e / ?ulp = 2 ^ 52"
    using pow2_diff[of e "e - 52", symmetric] pow2_nat[of 52] by simp
  ultimately have "(2::rat) ^ 52 < of_int n + 1 / 2" using n(2) by simp
  then have "(of_int ((2::int) ^ 52) :: rat) < of_int n + 1 / 2" by simp
  then have "(2::int) ^ 52 \<le> n" by (rule int_le_of_half)
  then have npos: "0 < n" by simp
  have "\<bar>q\<bar> / ?ulp < pow2 (e + 1) / ?ulp"
    by (rule divide_strict_right_mono[OF hi]) simp
  moreover have "pow2 (e + 1) / ?ulp = 2 ^ 53"
    using pow2_diff[of "e + 1" "e - 52", symmetric] pow2_nat[of 53] by simp
  ultimately have "of_int n - 1 / 2 < (2::rat) ^ 53" using n(1) by simp
  then have "of_int n - 1 / 2 < (of_int ((2::int) ^ 53) :: rat)" by simp
  then have nle: "n \<le> 2 ^ 53" by (rule int_le_of_half)
  have "(of_int n :: rat) \<le> of_int (2 ^ 53)"
    using nle by (simp only: of_int_le_iff)
  then have "(of_int n :: rat) \<le> 2 ^ 53" by simp
  then have "of_int n * ?ulp \<le> 2 ^ 53 * ?ulp"
    by (rule mult_right_mono) (simp add: less_imp_le)
  also have "(2::rat) ^ 53 * ?ulp = pow2 (e + 1)"
    using pow2_add[of 53 "e - 52"] pow2_nat[of 53] by (simp add: add.commute)
  also have "\<dots> < pow2 1024" using e by (intro pow2_strict_mono) simp
  finally have small: "\<not> pow2 1024 \<le> of_int n * ?ulp" by simp
  have nz: "of_int n * ?ulp \<noteq> 0" using npos by simp
  show ?thesis
    unfolding fl_def Let_def il mx re using q small nz by simp
qed

lemma fl_int:
  assumes k: "k \<noteq> 0" and b: "\<bar>k\<bar> < 2 ^ 53"
  shows "fl (of_int k) = Fin (of_int k)"
proof -
  let ?a = "\<bar>k\<bar>"
  let ?e = "bitlen ?a - 1"
  have a: "0 < ?a" using k by simp
  have b1: "1 \<le> bitlen ?a"
    using a bitlen_eq_zero_iff[of ?a] bitlen_nonneg[of ?a] by linarith
  have b53: "bitlen ?a \<le> 53"
    using b by (simp add: bitlen_le_iff_power)
  have abs: "\<bar>of_int k :: rat\<bar> = of_int ?a" by simp
  have lo: "pow2 ?e \<le> \<bar>of_int k :: rat\<bar>"
    unfolding abs by (rule bitlen_pow2_bounds[OF a])
  have hi: "\<bar>of_int k :: rat\<bar> < pow2 (?e + 1)"
    unfolding abs using bitlen_pow2_bounds(2)[OF a] by simp
  let ?n = "?a * 2 ^ nat (52 - ?e)"
  have sh: "pow2 (?e - 52) = 1 / 2 ^ nat (52 - ?e)"
    using b53 pow2_diff[of 0 "52 - ?e"] pow2_nat[of "nat (52 - ?e)"]
    by (simp add: pow2_def)
  have qn: "\<bar>of_int k :: rat\<bar> / pow2 (?e - 52) = of_int ?n"
    unfolding abs sh by simp
  have n1: "of_int ?n - 1 / 2 < \<bar>of_int k :: rat\<bar> / pow2 (?e - 52)"
    unfolding qn by simp
  have n2: "\<bar>of_int k :: rat\<bar> / pow2 (?e - 52) < of_int ?n + 1 / 2"
    unfolding qn by simp
  have k0: "(of_int k :: rat) \<noteq> 0" using k by simp
  have e1: "- 1022 \<le> ?e" using b1 by simp
  have e2: "?e \<le> 1022" using b53 by simp
  have bk: "(of_int ?n :: rat) * pow2 (?e - 52) = of_int ?a"
    unfolding sh by simp
  from fl_eqI[OF k0 lo hi e1 e2 n1 n2]
  have "fl (of_int k) = Fin (if (of_int k :: rat) < 0 then - of_int ?a else of_int ?a)"
    unfolding bk .
  then show ?thesis by (simp add: abs_if)
qed

lemma fl_numeral [simp]:
  "numeral w < (2::int) ^ 53 \<Longrightarrow> fl (numeral w) = Fin (numeral w)"
  "numeral w < (2::int) ^ 53 \<Longrightarrow> fl (- numeral w) = Fin (- numeral w)"
  using fl_int[of "numeral w"] fl_int[of "- numeral w"] by simp_all

lemma isDouble_int: "\<bar>k\<bar> < 2 ^ 53 \<Longrightarrow> isDouble (Fin (of_int k))"
  using fl_int[of k] by (cases "k = 0") (simp_all add: isDouble_def fl_def)

lemma fl_1_1001: "fl (1 / 1001) = Fin (1151769734871975 / 1152921504606846976)"
  using fl_eqI[of "1 / 1001" "- 10" 4607078939487900] by (simp add: pow2_def)

lemma fl_pct_3000_3006:
  "fl (1151769734871975 / 1152921504606846976 * 100)
     = Fin (1799640210737461 / 18014398509481984)"
  using fl_eqI[of "1151769734871975 / 1152921504606846976 * 100" "- 4" 7198560842949844]
  by (simp add: pow2_def)

lemma fl_58_3200: "fl (58 / 3200) = Fin (5224175567749775 / 288230376151711744)"
  using fl_eqI[of "58 / 3200" "- 6" 5224175567749775] by (simp add: pow2_def)

lemma fl_pct_3142_3258:
  "fl (5224175567749775 / 288230376151711744 * 100)
     = Fin (8162774324609023 / 4503599627370496)"
  using fl_eqI[of "5224175567749775 / 288230376151711744 * 100" 0 8162774324609023]
  by (simp add: pow2_def)

lemmas jsnum_simps = fadd_def fsub_def fdiv_def fmul_def mathMax_def lessThan_def
  signedZero_def signedInf_def

lemma digitsOf_step:
  "n < 10 \<Longrightarrow> digitsOf n = [''0123456789'' ! n]"
  "10 \<le> n \<Longrightarrow> digitsOf n = digitsOf (n div 10) @ [''0123456789'' ! (n mod 10)]"
  by (simp_all add: digitsOf.simps[of n])

lemma toFixed3_eqI:
  assumes "0 \<le> q" "q < 10 ^ 21" "of_int (int n) \<le> q * 1000 + 1 / 2"
    "q * 1000 + 1 / 2 < of_int (int n) + 1"
  shows "toFixed3 (Fin q) =
     (let m = replicate (4 - length (digitsOf n)) (CHR ''0'') @ digitsOf n
      in Str (take (length m - 3) m @ ''.'' @ drop (length m - 3) m))"
proof -
  have "\<lfloor>q * 1000 + 1 / 2\<rfloor> = int n"
    by (rule floor_unique) (use assms in simp_all)
  then have "nat \<lfloor>\<bar>q\<bar> * 1000 + 1 / 2\<rfloor> = n"
    using assms(1) by simp
  then show ?thesis
    using assms(1,2) by (simp add: toFixed3_def Let_def)
qed

lemma toFixed3_0100: "toFixed3 (Fin (1799640210737461 / 18014398509481984)) = Str ''0.100''"
  using toFixed3_eqI[of "1799640210737461 / 18014398509481984" 100]
  by (simp add: digitsOf_step)

lemma toFixed3_1812: "toFixed3 (Fin (8162774324609023 / 4503599627370496)) = Str ''1.812''"
  using toFixed3_eqI[of "8162774324609023 / 4503599627370496" 1812]
  by (simp add: digitsOf_step)

lemma variance_3000_3006:
  "(let avg = fdiv (fadd (fadd (Fin 0) (Fin 3000)) (Fin 3006)) (Fin 2);
        maxDiff = mathMax [fabs (fsub (Fin 3000) avg), fabs (fsub (Fin 3006) avg)]
    in toFixed3 (fmul (fdiv maxDiff avg) (Fin 100))) = Str ''0.100''"
proof -
  have avg: "fdiv (fadd (fadd (Fin 0) (Fin 3000)) (Fin 3006)) (Fin 2) = Fin 3003"
    by (simp add: jsnum_simps)
  have d: "fabs (fsub (Fin 3000) (Fin 3003)) = Fin 3" "fabs (fsub (Fin 3006) (Fin 3003)) = Fin 3"
    by (simp_all add: jsnum_simps)
  have m: "mathMax [Fin 3, Fin 3] = Fin 3"
    by (simp add: jsnum_simps)
  have q: "fdiv (Fin 3) (Fin 3003) = Fin (1151769734871975 / 1152921504606846976)"
    using fl_1_1001 by (simp add: jsnum_simps)
  have p: "fmul (Fin (1151769734871975 / 1152921504606846976)) (Fin 100)
      = Fin (1799640210737461 / 18014398509481984)"
    using fl_pct_3000_3006 by (simp add: jsnum_simps)
  show ?thesis
    unfolding Let_def avg d m q p by (rule toFixed3_0100)
qed

lemma variance_3142_3258:
  "(let avg = fdiv (fadd (fadd (Fin 0) (Fin 3142)) (Fin 3258)) (Fin 2);
        maxDiff = mathMax [fabs (fsub (Fin 3142) avg), fabs (fsub (Fin 3258) avg)]
    in toFixed3 (fmul (fdiv maxDiff avg) (Fin 100))) = Str ''1.812''"
proof -
  have avg: "fdiv (fadd (fadd (Fin 0) (Fin 3142)) (Fin 3258)) (Fin 2) = Fin 3200"
    by (simp add: jsnum_simps)
  have d: "fabs (fsub (Fin 3142) (Fin 3200)) = Fin 58" "fabs (fsub (Fin 3258) (Fin 3200)) = Fin 58"
    by (simp_all add: jsnum_simps)
  have m: "mathMax [Fin 58, Fin 58] = Fin 58"
    by (simp add: jsnum_simps)
  have q: "fdiv (Fin 58) (Fin 3200) = Fin (5224175567749775 / 288230376151711744)"
    using fl_58_3200 by (simp add: jsnum_simps)
  have p: "fmul (Fin (5224175567749775 / 288230376151711744)) (Fin 100)
      = Fin (8162774324609023 / 4503599627370496)"
    using fl_pct_3142_3258 by (simp add: jsnum_simps)
  show ?thesis
    unfolding Let_def avg d m q p by (rule toFixed3_1812)
qed

section \<open>Facts about the source comparison\<close>

lemma timedEntry_eq:
  "f start = (out, t) \<Longrightarrow>
   timedEntry src f extract start =
     (\<lparr>csource = src,
       cvalue = (case out of Resolved d \<Rightarrow> extract d | Rejected err \<Rightarrow> None),
       latencyMs = t - start,
       cerror = (case out of Resolved d \<Rightarrow> None | Rejected err \<Rightarrow> Some (message err))\<rparr>, t)"
  by (simp add: timedEntry_def split: settled.splits)

lemma orNull_eq:
  "orNull x = (case x of None \<Rightarrow> None
               | Some usd \<Rightarrow> if usd = Fin 0 \<or> usd = NegZero \<or> usd = NaN then None else Some usd)"
  by (cases x; simp add: orNull_def) (metis isZero.elims(2) isZero.simps(1,2))

lemma validPrices_of:
  "map cvalue (filter (\<lambda>r. cvalue r \<noteq> None) rs) = map Some vs
     \<Longrightarrow> map (\<lambda>r. the (cvalue r)) (filter (\<lambda>r. cvalue r \<noteq> None) rs) = vs"
proof -
  assume a: "map cvalue (filter (\<lambda>r. cvalue r \<noteq> None) rs) = map Some vs"
  have "map (\<lambda>r. the (cvalue r)) (filter (\<lambda>r. cvalue r \<noteq> None) rs)
      = map the (map cvalue (filter (\<lambda>r. cvalue r \<noteq> None) rs))"
    by simp
  also have "\<dots> = map the (map Some vs)" by (simp only: a)
  also have "\<dots> = vs" by (simp add: comp_def)
  finally show ?thesis .
qed

lemma maxVariance_none:
  "maxVariance cmp = NoLine \<longleftrightarrow> length (filter (\<lambda>r. cvalue r \<noteq> None) (results cmp)) < 2"
  by (auto simp: maxVariance_def Let_def)

lemma maxVariance_pair:
  assumes "map cvalue (filter (\<lambda>r. cvalue r \<noteq> None) (results cmp)) = [Some a, Some b]"
  shows "maxVariance cmp =
     (let avg = fdiv (fadd (fadd (Fin 0) a) b) (Fin 2);
          maxDiff = mathMax [fabs (fsub a avg), fabs (fsub b avg)]
      in MaxVariance (toFixed3 (fmul (fdiv maxDiff avg) (Fin 100))))"
proof -
  have "map (\<lambda>r. the (cvalue r)) (filter (\<lambda>r. cvalue r \<noteq> None) (results cmp)) = [a, b]"
    using assms validPrices_of[of "results cmp" "[a, b]"] by simp
  then show ?thesis by (simp add: maxVariance_def Let_def)
qed

lemma maxVariance_triple:
  assumes "map cvalue (filter (\<lambda>r. cvalue r \<noteq> None) (results cmp)) = [Some a, Some b, Some c]"
  shows "maxVariance cmp =
     (let avg = fdiv (fadd (fadd (fadd (Fin 0) a) b) c) (Fin 3);
          maxDiff = mathMax [fabs (fsub a avg), fabs (fsub b avg), fabs (fsub c avg)]
      in MaxVariance (toFixed3 (fmul (fdiv maxDiff avg) (Fin 100))))"
proof -
  have "map (\<lambda>r. the (cvalue r)) (filter (\<lambda>r. cvalue r \<noteq> None) (results cmp)) = [a, b, c]"
    using assms validPrices_of[of "results cmp" "[a, b, c]"] by simp
  then show ?thesis by (simp add: maxVariance_def Let_def)
qed

lemma fadd_NaN [simp]: "fadd NaN y = NaN" "fadd x NaN = NaN"
  by (simp_all add: fadd_def)

lemma foldl_fadd_NaN: "foldl fadd NaN xs = NaN"
  by (induction xs) simp_all

lemma foldl_fadd_has_NaN: "NaN \<in> set xs \<Longrightarrow> foldl fadd acc xs = NaN"
proof (induction xs arbitrary: acc)
  case Nil
  then show ?case by simp
next
  case (Cons x xs)
  show ?case
  proof (cases "x = NaN")
    case True
    then show ?thesis by (simp add: foldl_fadd_NaN)
  next
    case False
    with Cons.prems have "NaN \<in> set xs" by simp
    from Cons.IH[OF this] show ?thesis by simp
  qed
qed

lemma maxVariance_NaN:
  assumes n: "2 \<le> length (filter (\<lambda>r. cvalue r \<noteq> None) (results cmp))"
    and v: "Some NaN \<in> cvalue ` set (results cmp)"
  shows "maxVariance cmp = MaxVariance (Str ''NaN'')"
proof -
  let ?vs = "map (\<lambda>r. the (cvalue r)) (filter (\<lambda>r. cvalue r \<noteq> None) (results cmp))"
  from v obtain r where r: "r \<in> set (results cmp)" "cvalue r = Some NaN" by force
  then have "r \<in> set (filter (\<lambda>r. cvalue r \<noteq> None) (results cmp))" by simp
  then have "the (cvalue r) \<in> set ?vs" by (simp add: image_iff) blast
  with r(2) have m: "NaN \<in> set ?vs" by simp
  have s: "foldl fadd (Fin 0) ?vs = NaN" by (rule foldl_fadd_has_NaN[OF m])
  have ne: "?vs \<noteq> []" using m by (metis empty_iff empty_set)
  have d: "map (\<lambda>p. fabs (fsub p NaN)) ?vs = map (\<lambda>p. NaN) ?vs"
    by (simp add: fsub_def)
  have "NaN \<in> set (map (\<lambda>p. NaN) ?vs)" using ne by (cases ?vs) simp_all
  then have mx: "mathMax (map (\<lambda>p. fabs (fsub p NaN)) ?vs) = NaN"
    unfolding d by (simp only: mathMax_def if_True)
  have l: "2 \<le> length ?vs" using n by simp
  show ?thesis
    using l unfolding maxVariance_def Let_def s
    by (simp add: mx fdiv_def fmul_def toFixed3_def)
qed

lemma twoPrices_results:
  "compareEthPrice twoPrices 0 =
     (\<lparr>query = ''ETH Price (USD)'',
       results = [\<lparr>csource = ''etherscan'', cvalue = Some (Fin 3000), latencyMs = 120,
                   cerror = None\<rparr>,
                  \<lparr>csource = ''coingecko'', cvalue = Some (Fin 3006), latencyMs = 80,
                   cerror = None\<rparr>,
                  \<lparr>csource = ''defillama'', cvalue = None, latencyMs = 50,
                   cerror = Some ''DefiLlama API error: Bad Gateway''\<rparr>]\<rparr>, 250)"
  by (simp add: twoPrices_def compareEthPrice_def timedEntry_def orNull_def)

lemma compareEthPrice_eq:
  assumes "etherscan_getEthPrice env t0 = (o1, t1)"
    and "coingecko_getPrice env t1 = (o2, t2)"
    and "defillama_getCoinPrices env t2 = (o3, t3)"
  shows "compareEthPrice env t0 =
     (\<lparr>query = ''ETH Price (USD)'',
       results =
         [\<lparr>csource = ''etherscan'',
           cvalue = (case o1 of Resolved usd \<Rightarrow> Some usd | Rejected err \<Rightarrow> None),
           latencyMs = t1 - t0,
           cerror = (case o1 of Resolved usd \<Rightarrow> None | Rejected err \<Rightarrow> Some (message err))\<rparr>,
          \<lparr>csource = ''coingecko'',
           cvalue =
             (case o2 of
                Resolved d \<Rightarrow>
                  (case d ''ethereum'' of
                     None \<Rightarrow> None
                   | Some ethData \<Rightarrow>
                       (case ethData ''usd'' of
                          None \<Rightarrow> None
                        | Some usd \<Rightarrow>
                            if usd = Fin 0 \<or> usd = NegZero \<or> usd = NaN then None
                            else Some usd))
              | Rejected err \<Rightarrow> None),
           latencyMs = t2 - t1,
           cerror = (case o2 of Resolved d \<Rightarrow> None | Rejected err \<Rightarrow> Some (message err))\<rparr>,
          \<lparr>csource = ''defillama'',
           cvalue =
             (case o3 of
                Resolved coins \<Rightarrow>
                  (case coins of
                     [] \<Rightarrow> None
                   | coin # rest \<Rightarrow>
                       (case coin of
                          None \<Rightarrow> None
                        | Some pr \<Rightarrow>
                            if pr = Fin 0 \<or> pr = NegZero \<or> pr = NaN then None
                            else Some pr))
              | Rejected err \<Rightarrow> None),
           latencyMs = t3 - t2,
           cerror = (case o3 of Resolved d \<Rightarrow> None | Rejected err \<Rightarrow> Some (message err))\<rparr>]\<rparr>,
      t3)"
proof -
  note e1 = timedEntry_eq[where f = "etherscan_getEthPrice env" and start = t0 and out = o1
      and t = t1, OF assms(1)]
  note e2 = timedEntry_eq[where f = "coingecko_getPrice env" and start = t1 and out = o2
      and t = t2, OF assms(2)]
  note e3 = timedEntry_eq[where f = "defillama_getCoinPrices env" and start = t2 and out = o3
      and t = t3, OF assms(3)]
  show ?thesis
    by (simp add: compareEthPrice_def e1 e2 e3 orNull_eq
        split: settled.splits option.splits list.splits)
qed

section \<open>Which providers a run dispatches, and the state it leaves\<close>

lemma execLoop_idx:
  "execLoop v i srcs errs s = (res, s') \<Longrightarrow> Invoked j t \<in> set (newEvents s s')
     \<Longrightarrow> i \<le> j \<and> j < i + length srcs"
proof (induction srcs arbitrary: i errs s)
  case Nil
  then show ?case by (simp add: newEvents_def)
next
  case (Cons e rest)
  from Cons.prems(1) show ?case
  proof (cases rule: execLoop_ConsE)
    case (skip s1)
    have "newEvents s s' = newEvents s1 s'" using skip(2) by (rule newEvents_same)
    with Cons.IH[OF skip(4)] Cons.prems(2) show ?thesis by simp
  next
    case (fail s3 reason)
    have tr: "trace s' = trace s3 @ newEvents s3 s'"
      using execLoop_order[of rest "i + 1" "replicate (i + 1) e @ rest" v _ s3 res s'] fail(4)
      by simp
    from newEvents_app[OF fail(3) tr]
    have "newEvents s s' = [Invoked i (clock s), RecordedFailure (name e)] @ newEvents s3 s'"
      by simp
    with Cons.IH[OF fail(4)] Cons.prems(2) show ?thesis by auto
  next
    case (succ x)
    have "newEvents s s' = [Invoked i (clock s), RecordedSuccess (name e)]"
      using succ(5) by (rule newEvents_eq)
    with Cons.prems(2) show ?thesis by simp
  qed
qed

lemma execLoop_trace_grows:
  "execLoop v i srcs errs s = (res, s') \<Longrightarrow> trace s' = trace s @ newEvents s s'"
  using execLoop_order[of srcs i "replicate i undefined @ srcs" v errs s res s'] by simp

text \<open>Unless the provider at the head returns, the loop goes on after it from \<open>passOne\<close>.\<close>

lemma execLoop_goes_on:
  assumes run: "execLoop v i (e # rest) errs s = (res, s')"
    and later: "\<forall>out. res = Inr out \<longrightarrow> i < fallbacksUsed out"
  obtains errs' where "execLoop v (i + 1) rest errs' (passOne i e s) = (res, s')"
    and "newEvents s s' =
           (if fst (isCircuitOpen (name e) s) then []
            else [Invoked i (clock s), RecordedFailure (name e)])
           @ newEvents (passOne i e s) s'"
proof -
  let ?s1 = "snd (isCircuitOpen (name e) s)"
  have ex: "\<exists>errs'. execLoop v (i + 1) rest errs' (passOne i e s) = (res, s')"
  proof (cases "fst (isCircuitOpen (name e) s)")
    case True
    with run show ?thesis
      by (auto simp add: execLoop_Cons passOne_def case_prod_beta simp del: execLoop.simps)
  next
    case closed: False
    show ?thesis
    proof (cases "fst (fn e (clock s))")
      case (Rejected err)
      with run closed show ?thesis
        by (auto simp add: execLoop_Cons passOne_def case_prod_beta simp del: execLoop.simps)
    next
      case (Resolved x)
      show ?thesis
      proof (cases "rejects v x")
        case True
        with run closed Resolved show ?thesis
          by (auto simp add: execLoop_Cons passOne_def case_prod_beta simp del: execLoop.simps)
      next
        case False
        with run closed Resolved have "res = Inr \<lparr>result = x, source = name e, fallbacksUsed = i\<rparr>"
          by (auto simp add: execLoop_Cons simp del: execLoop.simps)
        with later show ?thesis by simp
      qed
    qed
  qed
  then obtain errs' where r: "execLoop v (i + 1) rest errs' (passOne i e s) = (res, s')"
    by blast
  have tr: "trace (passOne i e s) = trace s @
           (if fst (isCircuitOpen (name e) s) then []
            else [Invoked i (clock s), RecordedFailure (name e)])"
    by (simp add: passOne_def case_prod_beta)
  from newEvents_app[OF tr execLoop_trace_grows[OF r]]
  have "newEvents s s' =
           (if fst (isCircuitOpen (name e) s) then []
            else [Invoked i (clock s), RecordedFailure (name e)])
           @ newEvents (passOne i e s) s'" by simp
  with r show ?thesis by (rule that)
qed

lemma execLoop_thrown_state:
  "execLoop v i srcs errs s = (Inl err, s') \<Longrightarrow> s' = passedOver i srcs s"
proof (induction srcs arbitrary: i errs s)
  case Nil
  then show ?case by simp
next
  case (Cons e rest)
  from Cons.prems obtain errs' where
    "execLoop v (i + 1) rest errs' (passOne i e s) = (Inl err, s')"
    by (rule execLoop_goes_on) simp
  from Cons.IH[OF this] show ?case by simp
qed

lemma execLoop_dispatch:
  assumes "execLoop v i srcs errs s = (res, s')" and "j < length srcs"
    and "\<forall>out. res = Inr out \<longrightarrow> i + j \<le> fallbacksUsed out"
  shows "(fst (isCircuitOpen (name (srcs ! j)) (passedOver i (take j srcs) s))
            \<longrightarrow> (\<forall>t. Invoked (i + j) t \<notin> set (newEvents s s')))
       \<and> (\<not> fst (isCircuitOpen (name (srcs ! j)) (passedOver i (take j srcs) s))
            \<longrightarrow> Invoked (i + j) (clock (passedOver i (take j srcs) s)) \<in> set (newEvents s s'))
       \<and> (\<forall>t. Invoked (i + j) t \<in> set (newEvents s s')
            \<longrightarrow> t = clock (passedOver i (take j srcs) s))"
  using assms
proof (induction srcs arbitrary: i errs s j)
  case Nil
  then show ?case by simp
next
  case (Cons e rest)
  show ?case
  proof (cases j)
    case 0
    from Cons.prems(1) show ?thesis
    proof (cases rule: execLoop_ConsE)
      case (skip s1)
      have ne: "newEvents s s' = newEvents s1 s'" using skip(2) by (rule newEvents_same)
      have "\<forall>t. Invoked i t \<notin> set (newEvents s s')"
        unfolding ne using execLoop_idx[OF skip(4)] by fastforce
      with skip(1) 0 show ?thesis by simp
    next
      case (fail s3 reason)
      from newEvents_app[OF fail(3) execLoop_trace_grows[OF fail(4)]]
      have ne: "newEvents s s' = [Invoked i (clock s), RecordedFailure (name e)] @ newEvents s3 s'"
        by simp
      have "\<forall>t. Invoked i t \<notin> set (newEvents s3 s')"
        using execLoop_idx[OF fail(4)] by fastforce
      with fail(1) 0 show ?thesis by (auto simp: ne)
    next
      case (succ x)
      have ne: "newEvents s s' = [Invoked i (clock s), RecordedSuccess (name e)]"
        using succ(5) by (rule newEvents_eq)
      with succ(1) 0 show ?thesis by simp
    qed
  next
    case (Suc j')
    from Cons.prems(3) Suc have later: "\<forall>out. res = Inr out \<longrightarrow> i < fallbacksUsed out"
      by auto
    from Cons.prems(1) later obtain errs' where
      r: "execLoop v (i + 1) rest errs' (passOne i e s) = (res, s')"
      and ne: "newEvents s s' =
           (if fst (isCircuitOpen (name e) s) then []
            else [Invoked i (clock s), RecordedFailure (name e)])
           @ newEvents (passOne i e s) s'"
      by (rule execLoop_goes_on)
    from Cons.prems(2) Suc have j': "j' < length rest" by simp
    from Cons.prems(3) Suc have l': "\<forall>out. res = Inr out \<longrightarrow> i + 1 + j' \<le> fallbacksUsed out"
      by simp
    have mem: "Invoked (i + j) t \<in> set (newEvents s s')
        \<longleftrightarrow> Invoked (i + 1 + j') t \<in> set (newEvents (passOne i e s) s')" for t
      unfolding ne Suc by auto
    have nth: "(e # rest) ! j = rest ! j'" "take j (e # rest) = e # take j' rest"
      by (simp_all add: Suc)
    have ij: "i + j = i + 1 + j'" by (simp add: Suc)
    from Cons.IH[OF r j' l'] show ?thesis
      unfolding nth passedOver.simps mem unfolding ij .
  qed
qed


lemma execLoop_returned_state:
  "execLoop v i srcs errs s = (Inr out, s') \<Longrightarrow>
     i \<le> fallbacksUsed out \<and> fallbacksUsed out - i < length srcs \<and>
     s' = recordSuccess (name (srcs ! (fallbacksUsed out - i)))
            (snd (invoke (fallbacksUsed out) (fn (srcs ! (fallbacksUsed out - i)))
                    (snd (isCircuitOpen (name (srcs ! (fallbacksUsed out - i)))
                            (passedOver i (take (fallbacksUsed out - i) srcs) s)))))"
proof (induction srcs arbitrary: i errs s)
  case Nil
  then show ?case by simp
next
  case (Cons e rest)
  let ?k = "fallbacksUsed out"
  have step: ?case
    if run: "execLoop v (i + 1) rest errs' (passOne i e s) = (Inr out, s')" for errs'
  proof -
    from Cons.IH[OF run] have ih: "i + 1 \<le> ?k" "?k - (i + 1) < length rest"
      "s' = recordSuccess (name (rest ! (?k - (i + 1))))
            (snd (invoke ?k (fn (rest ! (?k - (i + 1))))
                    (snd (isCircuitOpen (name (rest ! (?k - (i + 1))))
                            (passedOver (i + 1) (take (?k - (i + 1)) rest) (passOne i e s))))))"
      by simp_all
    from ih(1) obtain m where m: "?k - i = Suc m" "?k - (i + 1) = m"
      by (metis Suc_diff_Suc Suc_eq_plus1 Suc_le_lessD diff_diff_left)
    show ?thesis
      using ih m by simp
  qed
  show ?case
  proof (cases "fst (isCircuitOpen (name e) s)")
    case True
    with Cons.prems show ?thesis
      by (intro step[of "errs @ [(name e, ''Circuit breaker open'')]"])
         (simp add: execLoop_Cons passOne_def case_prod_beta del: execLoop.simps)
  next
    case closed: False
    show ?thesis
    proof (cases "fst (fn e (clock s))")
      case (Rejected err)
      with Cons.prems closed show ?thesis
        by (intro step[of "errs @ [(name e, reasonOf err)]"])
           (simp add: execLoop_Cons passOne_def case_prod_beta del: execLoop.simps)
    next
      case (Resolved x)
      show ?thesis
      proof (cases "rejects v x")
        case True
        with Cons.prems closed Resolved show ?thesis
          by (intro step[of "errs @ [(name e, ''Validation failed'')]"])
             (simp add: execLoop_Cons passOne_def case_prod_beta del: execLoop.simps)
      next
        case False
        with Cons.prems closed Resolved show ?thesis
          by (auto simp add: execLoop_Cons simp del: execLoop.simps)
      qed
    qed
  qed
qed

lemma circuitOf_passOne:
  "p \<noteq> name e \<Longrightarrow> circuitOf (passOne i e s) p = circuitOf s p"
  by (simp add: passOne_def case_prod_beta circuitOf_other)

lemma circuitOf_passedOver:
  "p \<notin> name ` set xs \<Longrightarrow> circuitOf (passedOver i xs s) p = circuitOf s p"
  by (induction xs arbitrary: i s) (simp_all add: circuitOf_passOne)

section \<open>Claims about the fallback executor\<close>

text \<open>
  C1. A run of \<^verbatim>\<open>executeWithFallback\<close> dispatches thunks at strictly increasing positions
  of the list, so each at most once and in the order supplied. When it returns, the
  returned provider's thunk was dispatched last and resolved with the returned value,
  which the validator accepts; \<^verbatim>\<open>fallbacksUsed\<close> is that provider's position and
  \<^verbatim>\<open>source\<close> its name; every thunk dispatched before it failed (it threw or its value was
  refused) and \<^verbatim>\<open>recordFailure\<close> on its name follows its dispatch at once; the final
  state is that of the providers before it passed over, then the dispatch and
  \<^verbatim>\<open>recordSuccess\<close>. When the run throws, every dispatched thunk failed and the final
  state is that of all providers passed over.
  No provider is left out: every provider up to the returned one (every provider, when
  the run throws) is dispatched, at the clock value at which the loop reaches it, unless
  \<^verbatim>\<open>isCircuitOpen\<close> answers true for it in the state in which the loop reaches it; in
  particular a provider whose name does not occur earlier in the list and whose circuit
  is not open when the run starts is dispatched.
\<close>

theorem executeWithFallback_first_success:
  assumes run: "executeWithFallback options s = (res, s')"
  shows "sorted_wrt (<) (invokedIdx (newEvents s s'))
     \<and> (\<forall>j \<in> set (invokedIdx (newEvents s s')). j < length (sources options))
     \<and> (case res of
          Inr out \<Rightarrow>
            fallbacksUsed out < length (sources options)
            \<and> source out = name (sources options ! fallbacksUsed out)
            \<and> \<not> rejects (validate options) (result out)
            \<and> (\<exists>pre t. newEvents s s'
                   = pre @ [Invoked (fallbacksUsed out) t, RecordedSuccess (source out)]
                 \<and> fst (fn (sources options ! fallbacksUsed out) t) = Resolved (result out))
            \<and> (\<forall>j t. Invoked j t \<in> set (newEvents s s') \<longrightarrow>
                  j \<le> fallbacksUsed out
                  \<and> (j < fallbacksUsed out \<longrightarrow>
                       failedOutcome (validate options) (fst (fn (sources options ! j) t))
                       \<and> (\<exists>pre post. newEvents s s'
                             = pre @ [Invoked j t, RecordedFailure (name (sources options ! j))]
                                 @ post)))
            \<and> s' = recordSuccess (source out)
                     (snd (invoke (fallbacksUsed out) (fn (sources options ! fallbacksUsed out))
                        (snd (isCircuitOpen (source out)
                           (passedOver 0 (take (fallbacksUsed out) (sources options)) s)))))
        | Inl err \<Rightarrow>
            (\<forall>j t. Invoked j t \<in> set (newEvents s s') \<longrightarrow>
               failedOutcome (validate options) (fst (fn (sources options ! j) t)))
            \<and> s' = passedOver 0 (sources options) s)
     \<and> (\<forall>j < length (sources options).
           (\<forall>out. res = Inr out \<longrightarrow> j \<le> fallbacksUsed out) \<longrightarrow>
           (fst (isCircuitOpen (name (sources options ! j))
                   (passedOver 0 (take j (sources options)) s))
              \<longrightarrow> (\<forall>t. Invoked j t \<notin> set (newEvents s s')))
           \<and> (\<not> fst (isCircuitOpen (name (sources options ! j))
                   (passedOver 0 (take j (sources options)) s))
              \<longrightarrow> Invoked j (clock (passedOver 0 (take j (sources options)) s))
                    \<in> set (newEvents s s'))
           \<and> (name (sources options ! j) \<notin> name ` set (take j (sources options))
                \<and> \<not> isOpen (circuitOf s (name (sources options ! j)))
              \<longrightarrow> (\<exists>t. Invoked j t \<in> set (newEvents s s'))))"
proof -
  let ?all = "sources options" and ?v = "validate options"
  have d: "?all = drop 0 ?all" by simp
  from run have loop: "execLoop ?v 0 ?all [] s = (res, s')"
    by (simp add: executeWithFallback_def)
  from execLoop_order[OF d loop]
  have ord: "sorted_wrt (<) (invokedIdx (newEvents s s'))"
    and rng: "\<forall>j \<in> set (invokedIdx (newEvents s s')). j < length ?all"
    by simp_all
  have outcome: "case res of
          Inr out \<Rightarrow>
            fallbacksUsed out < length ?all
            \<and> source out = name (?all ! fallbacksUsed out)
            \<and> \<not> rejects ?v (result out)
            \<and> (\<exists>pre t. newEvents s s'
                   = pre @ [Invoked (fallbacksUsed out) t, RecordedSuccess (source out)]
                 \<and> fst (fn (?all ! fallbacksUsed out) t) = Resolved (result out))
            \<and> (\<forall>j t. Invoked j t \<in> set (newEvents s s') \<longrightarrow>
                  j \<le> fallbacksUsed out
                  \<and> (j < fallbacksUsed out \<longrightarrow>
                       failedOutcome ?v (fst (fn (?all ! j) t))
                       \<and> (\<exists>pre post. newEvents s s'
                             = pre @ [Invoked j t, RecordedFailure (name (?all ! j))] @ post)))
            \<and> s' = recordSuccess (source out)
                     (snd (invoke (fallbacksUsed out) (fn (?all ! fallbacksUsed out))
                        (snd (isCircuitOpen (source out)
                           (passedOver 0 (take (fallbacksUsed out) ?all) s)))))
        | Inl err \<Rightarrow>
            (\<forall>j t. Invoked j t \<in> set (newEvents s s') \<longrightarrow>
               failedOutcome ?v (fst (fn (?all ! j) t)))
            \<and> s' = passedOver 0 ?all s"
  proof (cases res)
    case (Inl err)
    with loop have l: "execLoop ?v 0 ?all [] s = (Inl err, s')" by simp
    show ?thesis unfolding Inl
      using execLoop_thrown_failed[OF d l] execLoop_thrown_state[OF l] by simp
  next
    case (Inr out)
    with loop have l: "execLoop ?v 0 ?all [] s = (Inr out, s')" by simp
    from execLoop_success[OF d l] have
      a: "fallbacksUsed out < length ?all" "source out = name (?all ! fallbacksUsed out)"
         "\<not> rejects ?v (result out)"
      and b: "\<exists>pre t. newEvents s s' = pre @ [Invoked (fallbacksUsed out) t,
                                          RecordedSuccess (name (?all ! fallbacksUsed out))]
           \<and> fst (fn (?all ! fallbacksUsed out) t) = Resolved (result out)"
      by simp_all
    from execLoop_returned_state[OF l] a(2)
    have c: "s' = recordSuccess (source out)
                     (snd (invoke (fallbacksUsed out) (fn (?all ! fallbacksUsed out))
                        (snd (isCircuitOpen (source out)
                           (passedOver 0 (take (fallbacksUsed out) ?all) s)))))"
      by simp
    show ?thesis unfolding Inr using a b c execLoop_earlier_failed[OF d l] by simp
  qed
  have decided: "(fst (isCircuitOpen (name (?all ! j)) (passedOver 0 (take j ?all) s))
              \<longrightarrow> (\<forall>t. Invoked j t \<notin> set (newEvents s s')))
           \<and> (\<not> fst (isCircuitOpen (name (?all ! j)) (passedOver 0 (take j ?all) s))
              \<longrightarrow> Invoked j (clock (passedOver 0 (take j ?all) s)) \<in> set (newEvents s s'))
           \<and> (name (?all ! j) \<notin> name ` set (take j ?all)
                \<and> \<not> isOpen (circuitOf s (name (?all ! j)))
              \<longrightarrow> (\<exists>t. Invoked j t \<in> set (newEvents s s')))"
    if j: "j < length ?all" and k: "\<forall>out. res = Inr out \<longrightarrow> j \<le> fallbacksUsed out" for j
  proof -
    from k have k': "\<forall>out. res = Inr out \<longrightarrow> 0 + j \<le> fallbacksUsed out" by simp
    from execLoop_dispatch[OF loop j k']
    have a: "fst (isCircuitOpen (name (?all ! j)) (passedOver 0 (take j ?all) s))
              \<longrightarrow> (\<forall>t. Invoked j t \<notin> set (newEvents s s'))"
      and b: "\<not> fst (isCircuitOpen (name (?all ! j)) (passedOver 0 (take j ?all) s))
              \<longrightarrow> Invoked j (clock (passedOver 0 (take j ?all) s)) \<in> set (newEvents s s')"
      by simp_all
    have "\<exists>t. Invoked j t \<in> set (newEvents s s')"
      if fresh: "name (?all ! j) \<notin> name ` set (take j ?all)"
        and closed: "\<not> isOpen (circuitOf s (name (?all ! j)))"
    proof -
      from closed have "\<not> isOpen (circuitOf (passedOver 0 (take j ?all) s) (name (?all ! j)))"
        by (simp add: circuitOf_passedOver[OF fresh])
      then have "\<not> fst (isCircuitOpen (name (?all ! j)) (passedOver 0 (take j ?all) s))"
        by (simp add: isCircuitOpen_closed)
      with b show ?thesis by blast
    qed
    with a b show ?thesis by blast
  qed
  from ord rng outcome decided show ?thesis by blast
qed


theorem executeWithFallback_first_success_witness:
  "fst (executeWithFallback threeProviders freshState)
     = Inr \<lparr>result = 7, source = ''c'', fallbacksUsed = 2\<rparr>
   \<and> sorted_wrt (<) (invokedIdx (newEvents freshState
         (snd (executeWithFallback threeProviders freshState))))
   \<and> (\<exists>t. Invoked 2 t \<in> set (newEvents freshState
         (snd (executeWithFallback threeProviders freshState))))
   \<and> newEvents freshState (snd (executeWithFallback threeProviders freshState))
       = [Invoked 0 0, RecordedFailure ''a'', Invoked 1 5, RecordedFailure ''b'',
          Invoked 2 14, RecordedSuccess ''c'']"
proof -
  let ?s' = "snd (executeWithFallback threeProviders freshState)"
  let ?out = "\<lparr>result = 7::int, source = ''c'', fallbacksUsed = 2\<rparr>"
  have f: "fst (executeWithFallback threeProviders freshState) = Inr ?out"
    by (simp add: threeProviders_def freshState_def run_simps)
  then have r: "executeWithFallback threeProviders freshState = (Inr ?out, ?s')"
    by (simp add: prod_eq_iff)
  have ev: "newEvents freshState ?s'
       = [Invoked 0 0, RecordedFailure ''a'', Invoked 1 5, RecordedFailure ''b'',
          Invoked 2 14, RecordedSuccess ''c'']"
    by (simp add: newEvents_def threeProviders_def freshState_def run_simps)
  note th = executeWithFallback_first_success[OF r]
  note ordered = th[THEN conjunct1]
  note decided = th[THEN conjunct2, THEN conjunct2, THEN conjunct2, rule_format, of 2]
  have len: "2 < length (sources threeProviders)"
    by (simp add: threeProviders_def)
  have upto: "\<forall>out. Inr ?out = Inr out \<longrightarrow> 2 \<le> fallbacksUsed out"
    by auto
  have fresh: "name (sources threeProviders ! 2) \<notin> name ` set (take 2 (sources threeProviders))
      \<and> \<not> isOpen (circuitOf freshState (name (sources threeProviders ! 2)))"
    by (simp add: threeProviders_def freshState_def circuitOf_def getCircuit_def newCircuit_def)
  from decided[OF len upto[rule_format], THEN conjunct2, THEN conjunct2] fresh
  have "\<exists>t. Invoked 2 t \<in> set (newEvents freshState ?s')" by blast
  with f ordered ev show ?thesis by blast
qed

text \<open>
  C2. Three \<^verbatim>\<open>recordFailure\<close> calls for a provider, from any state and with anything in
  between that leaves its failure counter alone (so no \<^verbatim>\<open>recordSuccess\<close>), open its circuit
  and leave the time of the third call in \<^verbatim>\<open>lastFailure\<close>. As long as that circuit entry
  is untouched, \<^verbatim>\<open>isCircuitOpen\<close> queried within 60,000 ms of the last failure answers
  true and changes nothing, and a run of \<^verbatim>\<open>executeWithFallback\<close> that lies within that
  window (it starts in it, and every thunk it dispatches settles in it) never dispatches a
  thunk under that provider's name and leaves its circuit as it was: at such a provider
  the loop goes on with the next one, having pushed \<^verbatim>\<open>Circuit breaker open\<close> under its
  name and touched nothing else, and that is the reason the aggregate error reports for it.
\<close>

theorem open_circuit_is_skipped:
  assumes f1: "s1 = recordFailure p s0"
    and k1: "failures (circuitOf s1' p) = failures (circuitOf s1 p)"
    and f2: "s2 = recordFailure p s1'"
    and k2: "failures (circuitOf s2' p) = failures (circuitOf s2 p)"
    and f3: "s3 = recordFailure p s2'"
    and same: "circuitBreakers s p = circuitBreakers s3 p"
    and window: "clock s - clock s2' \<le> RECOVERY_TIME"
    and run: "executeWithFallback options s = (res, s')"
    and inside: "\<forall>j t. Invoked j t \<in> set (newEvents s s')
                 \<longrightarrow> snd (fn (sources options ! j) t) - clock s2' \<le> RECOVERY_TIME"
  shows "isOpen (circuitOf s3 p) \<and> lastFailure (circuitOf s3 p) = clock s2'
     \<and> isCircuitOpen p s = (True, s)
     \<and> (\<forall>j t. Invoked j t \<in> set (newEvents s s') \<longrightarrow> name (sources options ! j) \<noteq> p)
     \<and> circuitOf s' p = circuitOf s3 p
     \<and> (\<forall>v i e rest errs st c.
           circuitBreakers st (name e) = Some c \<and> isOpen c
           \<and> clock st - lastFailure c \<le> RECOVERY_TIME
           \<longrightarrow> execLoop v i (e # rest) errs st
               = execLoop v (i + 1) rest (errs @ [(name e, ''Circuit breaker open'')]) st)
     \<and> (\<forall>err. res = Inl err \<longrightarrow>
           (\<exists>reasons. length reasons = length (sources options)
              \<and> err = allFailed (zip (map name (sources options)) reasons)
              \<and> (\<forall>j < length (sources options).
                    name (sources options ! j) = p
                    \<longrightarrow> reasons ! j = ''Circuit breaker open'')))"
proof -
  let ?c = "circuitOf s3 p"
  let ?all = "sources options" and ?v = "validate options"
  have "failures ?c = failures (circuitOf s0 p) + 3"
    using k1 k2 by (simp add: f1 f2 f3 circuitOf_recordFailure)
  then have c: "isOpen ?c" "lastFailure ?c = clock s2'"
    by (simp_all add: f3 circuitOf_recordFailure FAILURE_THRESHOLD_def)
  have cb: "circuitBreakers s p = Some ?c"
    using circuitBreakers_recordFailure[of p s2'] same by (simp add: f3)
  have w: "clock s - lastFailure ?c \<le> RECOVERY_TIME"
    using window c(2) by simp
  have q: "isCircuitOpen p s = (True, s)"
    using cb c(1) w by (rule isCircuitOpen_in_window)
  have d: "?all = drop 0 ?all" by simp
  from run have loop: "execLoop ?v 0 ?all [] s = (res, s')"
    by (simp add: executeWithFallback_def)
  from inside c(2) have inside': "\<forall>j t. Invoked j t \<in> set (newEvents s s')
            \<longrightarrow> snd (fn (?all ! j) t) - lastFailure ?c \<le> RECOVERY_TIME" by simp
  from execLoop_open_skipped[OF cb c(1) w d loop inside']
  have skipped: "circuitBreakers s' p = Some ?c"
    "\<forall>j t. Invoked j t \<in> set (newEvents s s') \<longrightarrow> name (?all ! j) \<noteq> p"
    by simp_all
  from skipped(1) have unchanged: "circuitOf s' p = ?c"
    by (simp add: circuitOf_def[of s'] getCircuit_def)
  have thrown: "\<exists>reasons. length reasons = length ?all
              \<and> err = allFailed (zip (map name ?all) reasons)
              \<and> (\<forall>j < length ?all. name (?all ! j) = p
                    \<longrightarrow> reasons ! j = ''Circuit breaker open'')"
    if "res = Inl err" for err
  proof -
    from that loop have l: "execLoop ?v 0 ?all [] s = (Inl err, s')" by simp
    from execLoop_all_failed[OF d l] obtain reasons where r:
      "length reasons = length ?all"
      "err = allFailed (zip (map name ?all) reasons)"
      "\<forall>j < length ?all.
         (reasons ! j = ''Circuit breaker open''
            \<and> (\<forall>t. Invoked j t \<notin> set (newEvents s s')))
       \<or> (\<exists>t. Invoked j t \<in> set (newEvents s s')
             \<and> failsWith ?v (fst (fn (?all ! j) t)) (reasons ! j))"
      by auto
    from r(3) skipped(2) have "\<forall>j < length ?all. name (?all ! j) = p
                    \<longrightarrow> reasons ! j = ''Circuit breaker open''" by blast
    with r(1,2) show ?thesis by blast
  qed
  show ?thesis
    using c q skipped(2) unchanged thrown execLoop_skip_step by blast
qed

theorem open_circuit_is_skipped_witness:
  "isCircuitOpen ''etherscan'' (thriceFailed\<lparr>clock := 4000\<rparr>)
     = (True, thriceFailed\<lparr>clock := 4000\<rparr>)
   \<and> fst (executeWithFallback slowTriple (thriceFailed\<lparr>clock := 4000\<rparr>))
     = Inr \<lparr>result = 2, source = ''defillama'', fallbacksUsed = 2\<rparr>
   \<and> newEvents (thriceFailed\<lparr>clock := 4000\<rparr>)
        (snd (executeWithFallback slowTriple (thriceFailed\<lparr>clock := 4000\<rparr>)))
     = [Invoked 0 4000, RecordedFailure ''coingecko'', Invoked 2 4005,
        RecordedSuccess ''defillama'']"
proof -
  let ?s = "thriceFailed\<lparr>clock := 4000\<rparr>"
  let ?s1 = "recordFailure ''etherscan'' (freshState\<lparr>clock := 1000\<rparr>)"
  let ?s2 = "recordFailure ''etherscan'' (?s1\<lparr>clock := 2000\<rparr>)"
  have f3: "thriceFailed = recordFailure ''etherscan'' (?s2\<lparr>clock := 3000\<rparr>)"
    by (simp add: thriceFailed_def)
  have k1: "failures (circuitOf (?s1\<lparr>clock := 2000\<rparr>) ''etherscan'')
      = failures (circuitOf ?s1 ''etherscan'')"
    and k2: "failures (circuitOf (?s2\<lparr>clock := 3000\<rparr>) ''etherscan'')
      = failures (circuitOf ?s2 ''etherscan'')"
    by simp_all
  have same: "circuitBreakers ?s ''etherscan'' = circuitBreakers thriceFailed ''etherscan''"
    by simp
  have w: "clock ?s - clock (?s2\<lparr>clock := 3000\<rparr>) \<le> RECOVERY_TIME"
    by (simp add: RECOVERY_TIME_def)
  have run: "executeWithFallback slowTriple ?s
      = (fst (executeWithFallback slowTriple ?s), snd (executeWithFallback slowTriple ?s))"
    by simp
  have r: "fst (executeWithFallback slowTriple ?s)
     = Inr \<lparr>result = 2, source = ''defillama'', fallbacksUsed = 2\<rparr>"
    by (simp add: thriceFailed_def slowTriple_def freshState_def run_simps)
  have e: "newEvents ?s (snd (executeWithFallback slowTriple ?s))
     = [Invoked 0 4000, RecordedFailure ''coingecko'', Invoked 2 4005,
        RecordedSuccess ''defillama'']"
    by (simp add: newEvents_def thriceFailed_def slowTriple_def freshState_def run_simps)
  have inside: "\<forall>j t. Invoked j t \<in> set (newEvents ?s (snd (executeWithFallback slowTriple ?s)))
      \<longrightarrow> snd (fn (sources slowTriple ! j) t) - clock (?s2\<lparr>clock := 3000\<rparr>) \<le> RECOVERY_TIME"
    unfolding e by (auto simp: slowTriple_def RECOVERY_TIME_def)
  from open_circuit_is_skipped[OF refl k1 refl k2 f3 same w run inside]
  have "isCircuitOpen ''etherscan'' ?s = (True, ?s)" by blast
  with r e show ?thesis by blast
qed

text \<open>
  C5. If no dispatched thunk of a run yields a value the validator accepts (every provider
  threw, was refused, or was skipped on an open circuit), the run throws one error whose
  message is \<^verbatim>\<open>All sources failed: \<close> followed by the lines \<^verbatim>\<open><name>: <reason>\<close> of all
  providers, in order, joined by \<^verbatim>\<open>; \<close>; the line of every provider occurs in it, and
  the reason is \<^verbatim>\<open>Circuit breaker open\<close> for a provider that was skipped, \<^verbatim>\<open>Validation failed\<close>
  for a refused value and the thrown error's message otherwise.
\<close>

theorem executeWithFallback_aggregate_error:
  assumes nosucc: "\<forall>j t. Invoked j t \<in> set (newEvents s (snd (executeWithFallback options s)))
            \<longrightarrow> failedOutcome (validate options) (fst (fn (sources options ! j) t))"
  shows "\<exists>reasons msg.
           length reasons = length (sources options)
         \<and> fst (executeWithFallback options s) = Inl (Error ''Error'' msg)
         \<and> msg = ''All sources failed: '' @
                  joinStr ''; '' (map (\<lambda>(e, r). name e @ '': '' @ r) (zip (sources options) reasons))
         \<and> (\<forall>j < length (sources options).
               (\<exists>a b. msg = a @ (name (sources options ! j) @ '': '' @ reasons ! j) @ b)
             \<and> ((reasons ! j = ''Circuit breaker open''
                   \<and> (\<forall>t. Invoked j t \<notin> set (newEvents s (snd (executeWithFallback options s)))))
                 \<or> (\<exists>t. Invoked j t \<in> set (newEvents s (snd (executeWithFallback options s)))
                       \<and> failsWith (validate options) (fst (fn (sources options ! j) t))
                            (reasons ! j))))"
proof -
  let ?all = "sources options" and ?v = "validate options"
  let ?s' = "snd (executeWithFallback options s)"
  have d: "?all = drop 0 ?all" by simp
  obtain res where loop: "execLoop ?v 0 ?all [] s = (res, ?s')"
    by (metis executeWithFallback_def prod.collapse)
  have "\<exists>err. res = Inl err"
  proof (cases res)
    case (Inl err)
    then show ?thesis by simp
  next
    case (Inr out)
    with loop have l: "execLoop ?v 0 ?all [] s = (Inr out, ?s')" by simp
    from execLoop_success[OF d l] obtain pre t where
      "\<not> rejects ?v (result out)"
      "newEvents s ?s' = pre @ [Invoked (fallbacksUsed out) t,
                               RecordedSuccess (name (?all ! fallbacksUsed out))]"
      "fst (fn (?all ! fallbacksUsed out) t) = Resolved (result out)"
      by blast
    with nosucc have False
      by (auto simp: failedOutcome_def)
    then show ?thesis ..
  qed
  then obtain err where l: "execLoop ?v 0 ?all [] s = (Inl err, ?s')"
    using loop by blast
  from execLoop_all_failed[OF d l] obtain reasons where r:
    "length reasons = length ?all"
    "err = allFailed (zip (map name ?all) reasons)"
    "\<forall>j < length ?all.
       (reasons ! j = ''Circuit breaker open''
          \<and> (\<forall>t. Invoked j t \<notin> set (newEvents s ?s')))
     \<or> (\<exists>t. Invoked j t \<in> set (newEvents s ?s')
           \<and> failsWith ?v (fst (fn (?all ! j) t)) (reasons ! j))"
    by auto
  let ?lines = "map (\<lambda>(e, r). name e @ '': '' @ r) (zip ?all reasons)"
  let ?msg = "''All sources failed: '' @ joinStr ''; '' ?lines"
  have lines: "map (\<lambda>(src, e). src @ '': '' @ e) (zip (map name ?all) reasons) = ?lines"
    by (simp add: zip_map1 case_prod_beta)
  have res: "fst (executeWithFallback options s) = Inl (Error ''Error'' ?msg)"
  proof -
    have "fst (executeWithFallback options s) = Inl err"
      by (metis executeWithFallback_def fst_conv l)
    then show ?thesis
      using r(2) lines by (simp add: allFailed_def errorSummary_def)
  qed
  have contains: "\<exists>a b. ?msg = a @ (name (?all ! j) @ '': '' @ reasons ! j) @ b"
    if "j < length ?all" for j
  proof -
    from that r(1) have "j < length ?lines" by simp
    from joinStr_contains[OF this, of "''; ''"] obtain a b where
      "joinStr ''; '' ?lines = a @ ?lines ! j @ b" by blast
    moreover have "?lines ! j = name (?all ! j) @ '': '' @ reasons ! j"
      using that r(1) by simp
    ultimately have "?msg = (''All sources failed: '' @ a)
        @ (name (?all ! j) @ '': '' @ reasons ! j) @ b" by simp
    then show ?thesis by blast
  qed
  show ?thesis
    apply (rule exI[of _ reasons], rule exI[of _ ?msg])
    using r(1) res contains r(3) by simp
qed

theorem executeWithFallback_aggregate_error_witness:
  "\<exists>reasons.
      length reasons = 2
    \<and> fst (executeWithFallback allFailing freshState)
        = Inl (Error ''Error'' (''All sources failed: '' @ joinStr ''; ''
               (map (\<lambda>(e, r). name e @ '': '' @ r) (zip (sources allFailing) reasons))))
    \<and> fst (executeWithFallback allFailing freshState)
        = Inl (Error ''Error'' ''All sources failed: a: down; b: Validation failed'')"
proof -
  have ev: "newEvents freshState (snd (executeWithFallback allFailing freshState))
        = [Invoked 0 0, RecordedFailure ''a'', Invoked 1 5, RecordedFailure ''b'']"
    by (simp add: newEvents_def allFailing_def freshState_def run_simps)
  have h: "\<forall>j t. Invoked j t \<in> set (newEvents freshState
              (snd (executeWithFallback allFailing freshState)))
            \<longrightarrow> failedOutcome (validate allFailing) (fst (fn (sources allFailing ! j) t))"
    unfolding ev by (auto simp: allFailing_def failedOutcome_def rejects_def)
  have c: "fst (executeWithFallback allFailing freshState)
        = Inl (Error ''Error'' ''All sources failed: a: down; b: Validation failed'')"
    by (simp add: allFailing_def freshState_def run_simps)
  have n: "length (sources allFailing) = 2"
    by (simp add: allFailing_def)
  from executeWithFallback_aggregate_error[OF h] obtain reasons msg where
    "length reasons = length (sources allFailing)"
    "fst (executeWithFallback allFailing freshState) = Inl (Error ''Error'' msg)"
    "msg = ''All sources failed: '' @ joinStr ''; ''
             (map (\<lambda>(e, r). name e @ '': '' @ r) (zip (sources allFailing) reasons))"
    by blast
  with c n show ?thesis by auto
qed

text \<open>
  C6. A value the validator refuses is handled as a thrown error is. Replacing, in every
  thunk of a provider list, each refused value by \<^verbatim>\<open>throw new Error('Validation failed')\<close>
  changes neither the result nor the final state of \<^verbatim>\<open>executeWithFallback\<close>. In both cases
  the loop calls \<^verbatim>\<open>recordFailure\<close> on the provider, pushes a reason under its name and goes
  on with the next provider. For the providers A (throws \<^verbatim>\<open>timeout\<close>), B (price 0) and
  C (price 100) with the validator \<^verbatim>\<open>price > 0\<close>, the result is price 100 from C with
  \<^verbatim>\<open>fallbacksUsed\<close> 2, and a failure is recorded for A and for B.
\<close>

theorem validator_rejection_is_failure:
  "executeWithFallback
      (options\<lparr>sources := map (\<lambda>e. e\<lparr>fn := throwInstead (validate options) (fn e)\<rparr>)
                               (sources options)\<rparr>) s
     = executeWithFallback options s
   \<and> (fst (isCircuitOpen (name e) s) = False \<and> fst (fn e (clock s)) = Resolved x
        \<and> rejects v x
       \<longrightarrow> execLoop v i (e # rest) errs s
           = execLoop v (i + 1) rest (errs @ [(name e, ''Validation failed'')])
               (recordFailure (name e)
                  (snd (invoke i (fn e) (snd (isCircuitOpen (name e) s))))))
   \<and> (fst (isCircuitOpen (name e) s) = False \<and> fst (fn e (clock s)) = Rejected err
       \<longrightarrow> execLoop v i (e # rest) errs s
           = execLoop v (i + 1) rest (errs @ [(name e, reasonOf err)])
               (recordFailure (name e)
                  (snd (invoke i (fn e) (snd (isCircuitOpen (name e) s))))))
   \<and> fst (executeWithFallback scenarioABC freshState)
       = Inr \<lparr>result = \<lparr>price = 100, currency = ''USD'', change24h = None, marketCap = None\<rparr>,
              source = ''C'', fallbacksUsed = 2\<rparr>
   \<and> newEvents freshState (snd (executeWithFallback scenarioABC freshState))
       = [Invoked 0 0, RecordedFailure ''A'', Invoked 1 30, RecordedFailure ''B'',
          Invoked 2 50, RecordedSuccess ''C'']
   \<and> failures (circuitOf (snd (executeWithFallback scenarioABC freshState)) ''A'') = 1
   \<and> failures (circuitOf (snd (executeWithFallback scenarioABC freshState)) ''B'') = 1"
proof -
  have eq: "executeWithFallback
      (options\<lparr>sources := map (\<lambda>e. e\<lparr>fn := throwInstead (validate options) (fn e)\<rparr>)
                               (sources options)\<rparr>) s
     = executeWithFallback options s"
    by (simp add: executeWithFallback_def execLoop_throwInstead)
  have r: "fst (executeWithFallback scenarioABC freshState)
       = Inr \<lparr>result = \<lparr>price = 100, currency = ''USD'', change24h = None, marketCap = None\<rparr>,
              source = ''C'', fallbacksUsed = 2\<rparr>"
    by (simp add: scenarioABC_def freshState_def validatePrice_def run_simps)
  have ev: "newEvents freshState (snd (executeWithFallback scenarioABC freshState))
       = [Invoked 0 0, RecordedFailure ''A'', Invoked 1 30, RecordedFailure ''B'',
          Invoked 2 50, RecordedSuccess ''C'']"
    by (simp add: newEvents_def scenarioABC_def freshState_def validatePrice_def run_simps)
  have fa: "failures (circuitOf (snd (executeWithFallback scenarioABC freshState)) ''A'') = 1"
    and fb: "failures (circuitOf (snd (executeWithFallback scenarioABC freshState)) ''B'') = 1"
    by (simp_all add: circuitOf_def scenarioABC_def freshState_def validatePrice_def run_simps)
  have st1: "fst (isCircuitOpen (name e) s) = False \<and> fst (fn e (clock s)) = Resolved x
        \<and> rejects v x
       \<longrightarrow> execLoop v i (e # rest) errs s
           = execLoop v (i + 1) rest (errs @ [(name e, ''Validation failed'')])
               (recordFailure (name e)
                  (snd (invoke i (fn e) (snd (isCircuitOpen (name e) s)))))"
    using execLoop_rejected_step[of e s x v i rest errs] by blast
  have st2: "fst (isCircuitOpen (name e) s) = False \<and> fst (fn e (clock s)) = Rejected err
       \<longrightarrow> execLoop v i (e # rest) errs s
           = execLoop v (i + 1) rest (errs @ [(name e, reasonOf err)])
               (recordFailure (name e)
                  (snd (invoke i (fn e) (snd (isCircuitOpen (name e) s)))))"
    using execLoop_thrown_step[of e s err v i rest errs] by blast
  from eq st1 st2 r ev fa fb show ?thesis by (intro conjI)
qed

theorem validator_rejection_is_failure_witness:
  "execLoop (Some validatePrice) 1 [sources scenarioABC ! 1, sources scenarioABC ! 2] []
      freshState
     = execLoop (Some validatePrice) 2 [sources scenarioABC ! 2] [(''B'', ''Validation failed'')]
         (recordFailure ''B''
            (snd (invoke 1 (fn (sources scenarioABC ! 1))
                    (snd (isCircuitOpen ''B'' freshState)))))
   \<and> rejects (Some validatePrice)
        \<lparr>price = 0, currency = ''USD'', change24h = None, marketCap = None\<rparr>"
proof -
  let ?B = "sources scenarioABC ! 1" and ?C = "sources scenarioABC ! 2"
  let ?x = "\<lparr>price = 0, currency = ''USD'', change24h = None, marketCap = None\<rparr>"
  have nb: "name ?B = ''B''" by (simp add: scenarioABC_def)
  have h: "fst (isCircuitOpen (name ?B) freshState) = False
      \<and> fst (fn ?B (clock freshState)) = Resolved ?x
      \<and> rejects (Some validatePrice) ?x"
    by (simp add: scenarioABC_def freshState_def validatePrice_def run_simps)
  from validator_rejection_is_failure[where e = ?B and s = freshState and x = ?x
      and v = "Some validatePrice" and i = 1 and rest = "[?C]" and errs = "[]",
      THEN conjunct2, THEN conjunct1] h
  have "execLoop (Some validatePrice) 1 [?B, ?C] [] freshState
     = execLoop (Some validatePrice) (1 + 1) [?C] ([] @ [(name ?B, ''Validation failed'')])
         (recordFailure (name ?B)
            (snd (invoke 1 (fn ?B) (snd (isCircuitOpen (name ?B) freshState)))))"
    by blast
  then have e: "execLoop (Some validatePrice) 1 [?B, ?C] [] freshState
     = execLoop (Some validatePrice) 2 [?C] [(''B'', ''Validation failed'')]
         (recordFailure ''B''
            (snd (invoke 1 (fn ?B) (snd (isCircuitOpen ''B'' freshState)))))"
    by (simp only: nb one_add_one append_Nil)
  from h have "rejects (Some validatePrice) ?x" by blast
  with e show ?thesis by blast
qed

section \<open>Claims about the circuit breaker\<close>

text \<open>
  C8 (as amended). \<^verbatim>\<open>recordFailure\<close> adds one to the failure counter and stores the
  current time in \<^verbatim>\<open>lastFailure\<close> on every call; it sets \<^verbatim>\<open>isOpen\<close> when the resulting
  counter is at least 3 and leaves \<^verbatim>\<open>isOpen\<close> as it was when the counter is below 3.
\<close>

theorem recordFailure_effect:
  "failures (circuitOf (recordFailure p s) p) = failures (circuitOf s p) + 1
   \<and> lastFailure (circuitOf (recordFailure p s) p) = clock s
   \<and> (if failures (circuitOf s p) + 1 \<ge> 3
       then isOpen (circuitOf (recordFailure p s) p)
       else isOpen (circuitOf (recordFailure p s) p) = isOpen (circuitOf s p))"
  by (simp add: circuitOf_recordFailure FAILURE_THRESHOLD_def)

text \<open>
  C8 (as stated) fails: on a fresh registry at time 1000 one failure leaves the counter
  at 1, below the threshold, and yet \<^verbatim>\<open>lastFailure\<close> changes from 0 to 1000.
\<close>

theorem recordFailure_lastFailure_counterexample:
  "failures (circuitOf (recordFailure ''etherscan''
       \<lparr>circuitBreakers = Map.empty, clock = 1000, trace = []\<rparr>) ''etherscan'') < 3
   \<and> lastFailure (circuitOf \<lparr>circuitBreakers = Map.empty, clock = 1000, trace = []\<rparr>
        ''etherscan'') = 0
   \<and> lastFailure (circuitOf (recordFailure ''etherscan''
       \<lparr>circuitBreakers = Map.empty, clock = 1000, trace = []\<rparr>) ''etherscan'') = 1000"
  by (simp add: circuitOf_def recordFailure_def getCircuit_def putCircuit_def logEvent_def
      newCircuit_def FAILURE_THRESHOLD_def Let_def)

text \<open>
  C3 (the code at the failing input). A circuit opened by three failures, the last at
  time 3000, is queried twice at time 70000 with no outcome reported in between: the
  first query clears \<^verbatim>\<open>isOpen\<close> and answers false, and so does the second.
\<close>

theorem isCircuitOpen_second_probe:
  "fst (isCircuitOpen ''etherscan'' (thriceFailed\<lparr>clock := 70000\<rparr>)) = False
   \<and> fst (isCircuitOpen ''etherscan''
           (snd (isCircuitOpen ''etherscan'' (thriceFailed\<lparr>clock := 70000\<rparr>)))) = False
   \<and> lastFailure (circuitOf thriceFailed ''etherscan'') = 3000
   \<and> isOpen (circuitOf thriceFailed ''etherscan'')"
  by (simp add: thriceFailed_def freshState_def circuitOf_def run_simps)

section \<open>Claim about on-chain routing without a configured source\<close>

text \<open>
  C7 (the code at the failing input). With neither the node nor the explorer configured,
  the first \<^verbatim>\<open>getBalance\<close> call fails with the configuration message; the three failures
  of the synthetic provider \<^verbatim>\<open>No source\<close> open its circuit, and the fourth call fails with
  \<^verbatim>\<open>No source: Circuit breaker open\<close>, which names neither remedy.
\<close>

theorem getBalance_fourth_call_hides_configuration_error:
  "fst (getBalance unconfigured balanceOne balanceOne freshState)
     = Inl (Error ''Error'' (''All sources failed: No source: '' @ noSourceMessage))
   \<and> fst (getBalance unconfigured balanceOne balanceOne
        (snd (getBalance unconfigured balanceOne balanceOne
          (snd (getBalance unconfigured balanceOne balanceOne
            (snd (getBalance unconfigured balanceOne balanceOne freshState)))))))
     = Inl (Error ''Error'' ''All sources failed: No source: Circuit breaker open'')"
  by (simp add: getBalance_def onChainCall_def onChainSources_def unconfigured_def
      jsonrpcConfigured_def includeJsonRpc_def noSourceFn_def freshState_def run_simps
      case_prod_beta)

section \<open>Claims about L2 TVL routing\<close>

text \<open>
  C9 (as amended). \<^verbatim>\<open>getL2Tvl\<close> lower-cases its chain argument, so two calls whose
  arguments have the same lower-case form give the same result and the same final state,
  whatever the providers answer. The DeFi-aggregator thunk lower-cases the names of the
  chain list and takes the first entry whose lower-cased name is the lower-cased argument.
  The L2-analytics thunk lower-cases the argument once more and reads the metrics stored
  under exactly that key: the keys of the analytics answer are compared as they are. With
  neither circuit open, a positive TVL under that key is the result, from \<^verbatim>\<open>growthepie\<close>
  with \<^verbatim>\<open>fallbacksUsed\<close> 0; when the analytics answer has no such key the result is the
  positive TVL of the matching aggregator entry, from \<^verbatim>\<open>defillama\<close> with \<^verbatim>\<open>fallbacksUsed\<close>
  1, and the aggregate error when the list has no matching entry either.
\<close>

theorem getL2Tvl_case_insensitive:
  "(toLowerCase env c1 = toLowerCase env c2 \<longrightarrow> getL2Tvl env c1 s = getL2Tvl env c2 s)
   \<and> (\<not> isOpen (circuitOf s ''growthepie'')
      \<and> getFundamentals env (clock s) = (Resolved m, t1)
      \<and> m (toLowerCase env (toLowerCase env c)) = Some metrics
      \<and> metrics ''tvl'' = Some x \<and> x > 0
     \<longrightarrow> fst (getL2Tvl env c s)
          = Inr \<lparr>tvl = x, breakdown = None, tvlSource = ''growthepie'', tvlFallbacksUsed = 0\<rparr>)
   \<and> (\<not> isOpen (circuitOf s ''growthepie'') \<and> \<not> isOpen (circuitOf s ''defillama'')
      \<and> getFundamentals env (clock s) = (Resolved m2, t2)
      \<and> m2 (toLowerCase env (toLowerCase env c)) = None
      \<and> getChains env t2 = (Resolved cs, t3)
      \<and> find (\<lambda>e. toLowerCase env (chainName e) = toLowerCase env c) cs = Some e
      \<and> chainTvl e = Some y \<and> y > 0
     \<longrightarrow> fst (getL2Tvl env c s)
          = Inr \<lparr>tvl = y, breakdown = None, tvlSource = ''defillama'', tvlFallbacksUsed = 1\<rparr>)
   \<and> (\<not> isOpen (circuitOf s ''growthepie'') \<and> \<not> isOpen (circuitOf s ''defillama'')
      \<and> getFundamentals env (clock s) = (Resolved m4, t4)
      \<and> m4 (toLowerCase env (toLowerCase env c)) = None
      \<and> getChains env t4 = (Resolved cs5, t5)
      \<and> find (\<lambda>e. toLowerCase env (chainName e) = toLowerCase env c) cs5 = None
     \<longrightarrow> fst (getL2Tvl env c s) = Inl (Error ''Error''
            ''All sources failed: growthepie: Chain not found; defillama: Chain not found''))"
proof -
  have a: "toLowerCase env c1 = toLowerCase env c2 \<longrightarrow> getL2Tvl env c1 s = getL2Tvl env c2 s"
    by (simp add: getL2Tvl_def)
  have b: "fst (getL2Tvl env c s)
          = Inr \<lparr>tvl = x, breakdown = None, tvlSource = ''growthepie'', tvlFallbacksUsed = 0\<rparr>"
    if c1: "\<not> isOpen (circuitOf s ''growthepie'')"
      and g: "getFundamentals env (clock s) = (Resolved m, t1)"
      and k: "m (toLowerCase env (toLowerCase env c)) = Some metrics"
      and v: "metrics ''tvl'' = Some x" and x: "x > 0"
  proof -
    have "growthepieTvl env (toLowerCase env c) (clock s)
        = (Resolved \<lparr>tvl = x, breakdown = None\<rparr>, t1)"
      using growthepieTvl_key[OF g k] v x by (simp add: orZero_def)
    from l2Tvl_first[OF this x c1] show ?thesis .
  qed
  have c: "fst (getL2Tvl env c s)
          = Inr \<lparr>tvl = y, breakdown = None, tvlSource = ''defillama'', tvlFallbacksUsed = 1\<rparr>"
    if c1: "\<not> isOpen (circuitOf s ''growthepie'')"
      and c2: "\<not> isOpen (circuitOf s ''defillama'')"
      and g: "getFundamentals env (clock s) = (Resolved m2, t2)"
      and k: "m2 (toLowerCase env (toLowerCase env c)) = None"
      and l: "getChains env t2 = (Resolved cs, t3)"
      and f: "find (\<lambda>e. toLowerCase env (chainName e) = toLowerCase env c) cs = Some e"
      and v: "chainTvl e = Some y" and y: "y > 0"
  proof -
    have gt: "growthepieTvl env (toLowerCase env c) (clock s) = (Rejected chainNotFound, t2)"
      by (rule growthepieTvl_no_key[OF g k])
    have lt: "defillamaTvl env (toLowerCase env c) t2
        = (Resolved \<lparr>tvl = y, breakdown = None\<rparr>, t3)"
      using defillamaTvl_key[OF l f v] y by simp
    from l2Tvl_second[OF gt lt y c1 c2] show ?thesis .
  qed
  have d: "fst (getL2Tvl env c s) = Inl (Error ''Error''
            ''All sources failed: growthepie: Chain not found; defillama: Chain not found'')"
    if c1: "\<not> isOpen (circuitOf s ''growthepie'')"
      and c2: "\<not> isOpen (circuitOf s ''defillama'')"
      and g: "getFundamentals env (clock s) = (Resolved m4, t4)"
      and k: "m4 (toLowerCase env (toLowerCase env c)) = None"
      and l: "getChains env t4 = (Resolved cs5, t5)"
      and f: "find (\<lambda>e. toLowerCase env (chainName e) = toLowerCase env c) cs5 = None"
  proof -
    have gt: "growthepieTvl env (toLowerCase env c) (clock s) = (Rejected chainNotFound, t4)"
      by (rule growthepieTvl_no_key[OF g k])
    have lt: "defillamaTvl env (toLowerCase env c) t4 = (Rejected chainNotFound, t5)"
      by (rule defillamaTvl_no_entry[OF l f])
    from l2Tvl_neither[OF gt lt c1 c2] show ?thesis .
  qed
  from b have b': "\<not> isOpen (circuitOf s ''growthepie'')
      \<and> getFundamentals env (clock s) = (Resolved m, t1)
      \<and> m (toLowerCase env (toLowerCase env c)) = Some metrics
      \<and> metrics ''tvl'' = Some x \<and> x > 0
     \<longrightarrow> fst (getL2Tvl env c s)
          = Inr \<lparr>tvl = x, breakdown = None, tvlSource = ''growthepie'', tvlFallbacksUsed = 0\<rparr>"
    by blast
  from c have c': "\<not> isOpen (circuitOf s ''growthepie'') \<and> \<not> isOpen (circuitOf s ''defillama'')
      \<and> getFundamentals env (clock s) = (Resolved m2, t2)
      \<and> m2 (toLowerCase env (toLowerCase env c)) = None
      \<and> getChains env t2 = (Resolved cs, t3)
      \<and> find (\<lambda>e. toLowerCase env (chainName e) = toLowerCase env c) cs = Some e
      \<and> chainTvl e = Some y \<and> y > 0
     \<longrightarrow> fst (getL2Tvl env c s)
          = Inr \<lparr>tvl = y, breakdown = None, tvlSource = ''defillama'', tvlFallbacksUsed = 1\<rparr>"
    by blast
  from d have d': "\<not> isOpen (circuitOf s ''growthepie'') \<and> \<not> isOpen (circuitOf s ''defillama'')
      \<and> getFundamentals env (clock s) = (Resolved m4, t4)
      \<and> m4 (toLowerCase env (toLowerCase env c)) = None
      \<and> getChains env t4 = (Resolved cs5, t5)
      \<and> find (\<lambda>e. toLowerCase env (chainName e) = toLowerCase env c) cs5 = None
     \<longrightarrow> fst (getL2Tvl env c s) = Inl (Error ''Error''
            ''All sources failed: growthepie: Chain not found; defillama: Chain not found'')"
    by blast
  from a b' c' d' show ?thesis by (intro conjI)
qed

theorem getL2Tvl_case_insensitive_witness:
  "getL2Tvl arbitrumEnv ''Arbitrum'' freshState = getL2Tvl arbitrumEnv ''arbitrum'' freshState
   \<and> fst (getL2Tvl arbitrumEnv ''Arbitrum'' freshState)
       = Inr \<lparr>tvl = 5, breakdown = None, tvlSource = ''growthepie'', tvlFallbacksUsed = 0\<rparr>
   \<and> fst (getL2Tvl capitalKeyEnv ''arbitrum'' freshState)
       = Inr \<lparr>tvl = 7, breakdown = None, tvlSource = ''defillama'', tvlFallbacksUsed = 1\<rparr>"
proof -
  let ?m = "[''arbitrum'' \<mapsto> [''tvl'' \<mapsto> 5, ''txcount'' \<mapsto> (9::real)]]"
  let ?M = "[''Arbitrum'' \<mapsto> [''tvl'' \<mapsto> 5, ''txcount'' \<mapsto> (9::real)]]"
  let ?e = "\<lparr>chainName = ''Arbitrum'', chainTvl = Some (7::real)\<rparr>"
  have closed: "\<not> isOpen (circuitOf freshState ''growthepie'')"
      "\<not> isOpen (circuitOf freshState ''defillama'')"
    by (simp_all add: circuitOf_def getCircuit_def newCircuit_def freshState_def)
  have l: "toLowerCase arbitrumEnv ''Arbitrum'' = toLowerCase arbitrumEnv ''arbitrum''"
    by (simp add: arbitrumEnv_def asciiLowerCase_Arbitrum)
  have g: "getFundamentals arbitrumEnv (clock freshState) = (Resolved ?m, 12)"
      "?m (toLowerCase arbitrumEnv (toLowerCase arbitrumEnv ''Arbitrum''))
         = Some [''tvl'' \<mapsto> 5, ''txcount'' \<mapsto> 9]"
      "[''tvl'' \<mapsto> 5, ''txcount'' \<mapsto> (9::real)] ''tvl'' = Some 5" "(5::real) > 0"
    by (simp_all add: arbitrumEnv_def freshState_def asciiLowerCase_Arbitrum)
  have h: "getFundamentals capitalKeyEnv (clock freshState) = (Resolved ?M, 12)"
      "?M (toLowerCase capitalKeyEnv (toLowerCase capitalKeyEnv ''arbitrum'')) = None"
      "getChains capitalKeyEnv 12 = (Resolved [?e], 20)"
      "find (\<lambda>e. toLowerCase capitalKeyEnv (chainName e) = toLowerCase capitalKeyEnv ''arbitrum'')
         [?e] = Some ?e"
      "chainTvl ?e = Some 7" "(7::real) > 0"
    by (simp_all add: capitalKeyEnv_def freshState_def asciiLowerCase_Arbitrum)
  from getL2Tvl_case_insensitive[of arbitrumEnv "''Arbitrum''" "''arbitrum''" freshState,
      THEN conjunct1] l
  have w1: "getL2Tvl arbitrumEnv ''Arbitrum'' freshState
      = getL2Tvl arbitrumEnv ''arbitrum'' freshState"
    by blast
  from getL2Tvl_case_insensitive[where env = arbitrumEnv and s = freshState
      and c = "''Arbitrum''" and m = ?m and ?t1.0 = 12
      and metrics = "[''tvl'' \<mapsto> 5, ''txcount'' \<mapsto> 9]" and x = 5,
      THEN conjunct2, THEN conjunct1] closed g
  have w2: "fst (getL2Tvl arbitrumEnv ''Arbitrum'' freshState)
       = Inr \<lparr>tvl = 5, breakdown = None, tvlSource = ''growthepie'', tvlFallbacksUsed = 0\<rparr>"
    by blast
  from getL2Tvl_case_insensitive[where env = capitalKeyEnv and s = freshState
      and c = "''arbitrum''" and ?m2.0 = ?M and ?t2.0 = 12 and cs = "[?e]" and ?t3.0 = 20
      and e = ?e and y = 7,
      THEN conjunct2, THEN conjunct2, THEN conjunct1] closed h
  have w3: "fst (getL2Tvl capitalKeyEnv ''arbitrum'' freshState)
       = Inr \<lparr>tvl = 7, breakdown = None, tvlSource = ''defillama'', tvlFallbacksUsed = 1\<rparr>"
    by blast
  from w1 w2 w3 show ?thesis by (intro conjI)
qed

text \<open>
  C9 (as stated) fails: the chain is not matched case-insensitively against the chain
  keys of the L2-analytics service. When the analytics answer stores a TVL of 5 under the key
  \<^verbatim>\<open>Arbitrum\<close>, which differs from \<^verbatim>\<open>arbitrum\<close> only in letter case, the analytics thunk
  throws \<^verbatim>\<open>Chain not found\<close> for the argument \<^verbatim>\<open>Arbitrum\<close> and for the argument
  \<^verbatim>\<open>arbitrum\<close>, and the call returns the aggregator's 7 with \<^verbatim>\<open>fallbacksUsed\<close> 1.
\<close>

theorem getL2Tvl_capital_key_counterexample:
  "fst (getFundamentals capitalKeyEnv 0)
       = Resolved [''Arbitrum'' \<mapsto> [''tvl'' \<mapsto> 5, ''txcount'' \<mapsto> 9]]
   \<and> toLowerCase capitalKeyEnv ''Arbitrum'' = toLowerCase capitalKeyEnv ''arbitrum''
   \<and> fst (growthepieTvl capitalKeyEnv (toLowerCase capitalKeyEnv ''Arbitrum'') 0)
       = Rejected chainNotFound
   \<and> fst (growthepieTvl capitalKeyEnv (toLowerCase capitalKeyEnv ''arbitrum'') 0)
       = Rejected chainNotFound
   \<and> fst (getL2Tvl capitalKeyEnv ''Arbitrum'' freshState)
       = Inr \<lparr>tvl = 7, breakdown = None, tvlSource = ''defillama'', tvlFallbacksUsed = 1\<rparr>
   \<and> fst (getL2Tvl capitalKeyEnv ''arbitrum'' freshState)
       = Inr \<lparr>tvl = 7, breakdown = None, tvlSource = ''defillama'', tvlFallbacksUsed = 1\<rparr>"
  by (simp add: capitalKeyEnv_def freshState_def tvl_simps asciiLowerCase_Arbitrum run_simps
      case_prod_beta)

text \<open>
  C10. A provider answer with TVL exactly 0 for the chain makes the provider's thunk throw
  \<^verbatim>\<open>Chain not found\<close>, although the validator accepts a TVL of 0. When both providers
  always answer 0 for the chain, \<^verbatim>\<open>getL2Tvl\<close> throws the aggregate error (with the reason
  \<^verbatim>\<open>Chain not found\<close> for both when neither circuit is open). When the first provider
  answers 0 and the second a positive TVL, with neither circuit open, the result is the
  second provider's with \<^verbatim>\<open>fallbacksUsed\<close> 1. Whatever the providers answer, a successful
  result never carries a TVL of 0.
\<close>

theorem getL2Tvl_zero_tvl_not_found:
  "(getFundamentals env t = (Resolved m, t') \<and> m (toLowerCase env (toLowerCase env c)) = Some metrics
      \<and> metrics ''tvl'' = Some 0
     \<longrightarrow> growthepieTvl env (toLowerCase env c) t = (Rejected chainNotFound, t'))
   \<and> (getChains env t = (Resolved cs, t')
      \<and> find (\<lambda>x. toLowerCase env (chainName x) = toLowerCase env c) cs = Some e
      \<and> chainTvl e = Some 0
     \<longrightarrow> defillamaTvl env (toLowerCase env c) t = (Rejected chainNotFound, t'))
   \<and> validateTvl \<lparr>tvl = 0, breakdown = None\<rparr>
   \<and> ((\<forall>t. \<exists>m metrics. fst (getFundamentals env t) = Resolved m
              \<and> m (toLowerCase env (toLowerCase env c)) = Some metrics \<and> metrics ''tvl'' = Some 0)
      \<and> (\<forall>t. \<exists>cs e. fst (getChains env t) = Resolved cs
              \<and> find (\<lambda>x. toLowerCase env (chainName x) = toLowerCase env c) cs = Some e
              \<and> chainTvl e = Some 0)
     \<longrightarrow> (\<exists>msg. fst (getL2Tvl env c s) = Inl (Error ''Error'' msg))
         \<and> (\<not> isOpen (circuitOf s ''growthepie'') \<and> \<not> isOpen (circuitOf s ''defillama'')
            \<longrightarrow> fst (getL2Tvl env c s) = Inl (Error ''Error''
                 ''All sources failed: growthepie: Chain not found; defillama: Chain not found'')))
   \<and> (getFundamentals env (clock s) = (Resolved m1, t1) \<and> m1 (toLowerCase env (toLowerCase env c)) = Some metrics1
      \<and> metrics1 ''tvl'' = Some 0
      \<and> getChains env t1 = (Resolved cs2, t2)
      \<and> find (\<lambda>x. toLowerCase env (chainName x) = toLowerCase env c) cs2 = Some e2
      \<and> chainTvl e2 = Some x2 \<and> x2 > 0
      \<and> \<not> isOpen (circuitOf s ''growthepie'') \<and> \<not> isOpen (circuitOf s ''defillama'')
     \<longrightarrow> fst (getL2Tvl env c s)
          = Inr \<lparr>tvl = x2, breakdown = None, tvlSource = ''defillama'', tvlFallbacksUsed = 1\<rparr>)
   \<and> (\<forall>out. fst (getL2Tvl env c s) = Inr out \<longrightarrow> tvl out \<noteq> 0)"
proof -
  have fb: "getFundamentals env (clock s) = (Resolved m1, t1) \<and> m1 (toLowerCase env (toLowerCase env c)) = Some metrics1
      \<and> metrics1 ''tvl'' = Some 0
      \<and> getChains env t1 = (Resolved cs2, t2)
      \<and> find (\<lambda>x. toLowerCase env (chainName x) = toLowerCase env c) cs2 = Some e2
      \<and> chainTvl e2 = Some x2 \<and> x2 > 0
      \<and> \<not> isOpen (circuitOf s ''growthepie'') \<and> \<not> isOpen (circuitOf s ''defillama'')
     \<longrightarrow> fst (getL2Tvl env c s)
          = Inr \<lparr>tvl = x2, breakdown = None, tvlSource = ''defillama'', tvlFallbacksUsed = 1\<rparr>"
    using l2Tvl_falls_back[of env s m1 t1 c metrics1 cs2 t2 e2 x2] by blast
  have a: "getFundamentals env t = (Resolved m, t') \<and> m (toLowerCase env (toLowerCase env c)) = Some metrics
      \<and> metrics ''tvl'' = Some 0
     \<longrightarrow> growthepieTvl env (toLowerCase env c) t = (Rejected chainNotFound, t')"
    by (simp add: growthepieTvl_def getL2Chain_def orZero_def)
  have b: "getChains env t = (Resolved cs, t')
      \<and> find (\<lambda>x. toLowerCase env (chainName x) = toLowerCase env c) cs = Some e
      \<and> chainTvl e = Some 0
     \<longrightarrow> defillamaTvl env (toLowerCase env c) t = (Rejected chainNotFound, t')"
    by (simp add: defillamaTvl_def)
  have v: "validateTvl \<lparr>tvl = 0, breakdown = None\<rparr>"
    by (simp add: validateTvl_def)
  have w: "(\<exists>msg. fst (getL2Tvl env c s) = Inl (Error ''Error'' msg))
         \<and> (\<not> isOpen (circuitOf s ''growthepie'') \<and> \<not> isOpen (circuitOf s ''defillama'')
            \<longrightarrow> fst (getL2Tvl env c s) = Inl (Error ''Error''
                 ''All sources failed: growthepie: Chain not found; defillama: Chain not found''))"
    if hg: "\<forall>t. \<exists>m metrics. fst (getFundamentals env t) = Resolved m
              \<and> m (toLowerCase env (toLowerCase env c)) = Some metrics \<and> metrics ''tvl'' = Some 0"
      and hl: "\<forall>t. \<exists>cs e. fst (getChains env t) = Resolved cs
              \<and> find (\<lambda>x. toLowerCase env (chainName x) = toLowerCase env c) cs = Some e
              \<and> chainTvl e = Some 0"
  proof -
    have g: "\<forall>t. fst (growthepieTvl env (toLowerCase env c) t) = Rejected chainNotFound"
    proof
      fix t
      from hg obtain m metrics where "fst (getFundamentals env t) = Resolved m"
        "m (toLowerCase env (toLowerCase env c)) = Some metrics" "metrics ''tvl'' = Some 0" by blast
      then show "fst (growthepieTvl env (toLowerCase env c) t) = Rejected chainNotFound"
        by (cases "getFundamentals env t") (simp add: growthepieTvl_def getL2Chain_def orZero_def)
    qed
    have l: "\<forall>t. fst (defillamaTvl env (toLowerCase env c) t) = Rejected chainNotFound"
    proof
      fix t
      from hl obtain cs e where "fst (getChains env t) = Resolved cs"
        "find (\<lambda>x. toLowerCase env (chainName x) = toLowerCase env c) cs = Some e"
        "chainTvl e = Some 0" by blast
      then show "fst (defillamaTvl env (toLowerCase env c) t) = Rejected chainNotFound"
        by (cases "getChains env t") (simp add: defillamaTvl_def)
    qed
    from l2Tvl_both_not_found[OF g l, of s] show ?thesis by blast
  qed
  have n: "\<forall>out. fst (getL2Tvl env c s) = Inr out \<longrightarrow> tvl out \<noteq> 0"
    using l2Tvl_result_nonzero[of env c s] by blast
  from w have w': "(\<forall>t. \<exists>m metrics. fst (getFundamentals env t) = Resolved m
              \<and> m (toLowerCase env (toLowerCase env c)) = Some metrics \<and> metrics ''tvl'' = Some 0)
      \<and> (\<forall>t. \<exists>cs e. fst (getChains env t) = Resolved cs
              \<and> find (\<lambda>x. toLowerCase env (chainName x) = toLowerCase env c) cs = Some e
              \<and> chainTvl e = Some 0)
     \<longrightarrow> (\<exists>msg. fst (getL2Tvl env c s) = Inl (Error ''Error'' msg))
         \<and> (\<not> isOpen (circuitOf s ''growthepie'') \<and> \<not> isOpen (circuitOf s ''defillama'')
            \<longrightarrow> fst (getL2Tvl env c s) = Inl (Error ''Error''
                 ''All sources failed: growthepie: Chain not found; defillama: Chain not found''))"
    by blast
  from a b v w' fb n show ?thesis by (intro conjI)
qed

theorem getL2Tvl_zero_tvl_not_found_witness:
  "fst (getL2Tvl zeroTvlEnv ''NewChain'' freshState) = Inl (Error ''Error''
      ''All sources failed: growthepie: Chain not found; defillama: Chain not found'')
   \<and> growthepieTvl zeroTvlEnv (toLowerCase zeroTvlEnv ''NewChain'') 0 = (Rejected chainNotFound, 12)"
proof -
  let ?c = "''NewChain''"
  have hg: "\<forall>t. \<exists>m metrics. fst (getFundamentals zeroTvlEnv t) = Resolved m
              \<and> m (toLowerCase zeroTvlEnv (toLowerCase zeroTvlEnv ?c)) = Some metrics \<and> metrics ''tvl'' = Some 0"
    by (simp add: zeroTvlEnv_def asciiLowerCase_newchain)
  have hl: "\<forall>t. \<exists>cs e. fst (getChains zeroTvlEnv t) = Resolved cs
              \<and> find (\<lambda>x. toLowerCase zeroTvlEnv (chainName x) = toLowerCase zeroTvlEnv ?c) cs = Some e
              \<and> chainTvl e = Some 0"
    by (simp add: zeroTvlEnv_def asciiLowerCase_newchain)
  have closed: "\<not> isOpen (circuitOf freshState ''growthepie'')
      \<and> \<not> isOpen (circuitOf freshState ''defillama'')"
    by (simp add: circuitOf_def getCircuit_def newCircuit_def freshState_def)
  have g0: "getFundamentals zeroTvlEnv 0
      = (Resolved [''newchain'' \<mapsto> [''tvl'' \<mapsto> 0]], 12)
    \<and> [''newchain'' \<mapsto> [''tvl'' \<mapsto> (0::real)]] (toLowerCase zeroTvlEnv (toLowerCase zeroTvlEnv ?c)) = Some [''tvl'' \<mapsto> 0]
    \<and> [''tvl'' \<mapsto> (0::real)] ''tvl'' = Some 0"
    by (simp add: zeroTvlEnv_def asciiLowerCase_newchain)
  note th = getL2Tvl_zero_tvl_not_found[where env = zeroTvlEnv and c = ?c and s = freshState
      and t = 0 and t' = 12 and m = "[''newchain'' \<mapsto> [''tvl'' \<mapsto> 0]]"
      and metrics = "[''tvl'' \<mapsto> 0]"]
  from th hg hl closed
  have "fst (getL2Tvl zeroTvlEnv ?c freshState) = Inl (Error ''Error''
      ''All sources failed: growthepie: Chain not found; defillama: Chain not found'')"
    by blast
  moreover from th g0
  have "growthepieTvl zeroTvlEnv (toLowerCase zeroTvlEnv ?c) 0 = (Rejected chainNotFound, 12)"
    by blast
  ultimately show ?thesis by blast
qed

section \<open>Claim about the source comparison\<close>

text \<open>
  C4 (as amended). \<^verbatim>\<open>compareEthPrice\<close> calls the three providers one after the other,
  each one whatever the others did, and returns one entry for each, in the order
  etherscan, coingecko, defillama. An entry carries the source, the latency (the time its
  own call took) and, when its provider threw, the message as error and \<^verbatim>\<open>null\<close> as
  value; otherwise the value is the explorer's \<^verbatim>\<open>usd\<close>, the market-data service's
  \<^verbatim>\<open>ethereum.usd\<close> or the \<^verbatim>\<open>price\<close> of the aggregator's first coin, where for the last two
  a missing number, a zero and \<^verbatim>\<open>NaN\<close> are stored as \<^verbatim>\<open>null\<close>. The comparison tool adds a
  line exactly when at least two values are not \<^verbatim>\<open>null\<close>; the line shows, to three
  decimals, the largest distance of such a value from their mean as a percentage of the
  mean, all of it computed in binary64; it shows \<^verbatim>\<open>NaN\<close> when one of the values is
  \<^verbatim>\<open>NaN\<close>. For 3000 and 3006 (mean 3003, distance 3) the line shows 0.100, and for 3142
  and 3258 it shows 1.812.
\<close>

theorem compareEthPrice_collects_all:
  "(etherscan_getEthPrice env t0 = (o1, t1) \<and> coingecko_getPrice env t1 = (o2, t2)
      \<and> defillama_getCoinPrices env t2 = (o3, t3)
     \<longrightarrow> compareEthPrice env t0 =
         (\<lparr>query = ''ETH Price (USD)'',
           results =
             [\<lparr>csource = ''etherscan'',
               cvalue = (case o1 of Resolved usd \<Rightarrow> Some usd | Rejected err \<Rightarrow> None),
               latencyMs = t1 - t0,
               cerror = (case o1 of Resolved usd \<Rightarrow> None
                         | Rejected err \<Rightarrow> Some (message err))\<rparr>,
              \<lparr>csource = ''coingecko'',
               cvalue =
                 (case o2 of
                    Resolved d \<Rightarrow>
                      (case d ''ethereum'' of
                         None \<Rightarrow> None
                       | Some ethData \<Rightarrow>
                           (case ethData ''usd'' of
                              None \<Rightarrow> None
                            | Some usd \<Rightarrow>
                                if usd = Fin 0 \<or> usd = NegZero \<or> usd = NaN then None
                                else Some usd))
                  | Rejected err \<Rightarrow> None),
               latencyMs = t2 - t1,
               cerror = (case o2 of Resolved d \<Rightarrow> None
                         | Rejected err \<Rightarrow> Some (message err))\<rparr>,
              \<lparr>csource = ''defillama'',
               cvalue =
                 (case o3 of
                    Resolved coins \<Rightarrow>
                      (case coins of
                         [] \<Rightarrow> None
                       | coin # rest \<Rightarrow>
                           (case coin of
                              None \<Rightarrow> None
                            | Some pr \<Rightarrow>
                                if pr = Fin 0 \<or> pr = NegZero \<or> pr = NaN then None
                                else Some pr))
                  | Rejected err \<Rightarrow> None),
               latencyMs = t3 - t2,
               cerror = (case o3 of Resolved d \<Rightarrow> None
                         | Rejected err \<Rightarrow> Some (message err))\<rparr>]\<rparr>,
          t3))
   \<and> (maxVariance cmp = NoLine
        \<longleftrightarrow> length (filter (\<lambda>r. cvalue r \<noteq> None) (results cmp)) < 2)
   \<and> (map cvalue (filter (\<lambda>r. cvalue r \<noteq> None) (results cmp)) = [Some a, Some b]
       \<longrightarrow> maxVariance cmp =
            (let avg = fdiv (fadd (fadd (Fin 0) a) b) (Fin 2);
                 maxDiff = mathMax [fabs (fsub a avg), fabs (fsub b avg)]
             in MaxVariance (toFixed3 (fmul (fdiv maxDiff avg) (Fin 100)))))
   \<and> (map cvalue (filter (\<lambda>r. cvalue r \<noteq> None) (results cmp))
         = [Some a3, Some b3, Some c3]
       \<longrightarrow> maxVariance cmp =
            (let avg = fdiv (fadd (fadd (fadd (Fin 0) a3) b3) c3) (Fin 3);
                 maxDiff = mathMax [fabs (fsub a3 avg), fabs (fsub b3 avg), fabs (fsub c3 avg)]
             in MaxVariance (toFixed3 (fmul (fdiv maxDiff avg) (Fin 100)))))
   \<and> (2 \<le> length (filter (\<lambda>r. cvalue r \<noteq> None) (results cmp))
        \<and> Some NaN \<in> cvalue ` set (results cmp)
       \<longrightarrow> maxVariance cmp = MaxVariance (Str ''NaN''))
   \<and> (map cvalue (filter (\<lambda>r. cvalue r \<noteq> None) (results cmp))
         = [Some (Fin 3000), Some (Fin 3006)]
       \<longrightarrow> maxVariance cmp = MaxVariance (Str ''0.100''))
   \<and> (map cvalue (filter (\<lambda>r. cvalue r \<noteq> None) (results cmp))
         = [Some (Fin 3142), Some (Fin 3258)]
       \<longrightarrow> maxVariance cmp = MaxVariance (Str ''1.812''))"
proof -
  note c1 = compareEthPrice_eq[of env t0 o1 t1 o2 t2 o3 t3]
  note c2 = maxVariance_none[of cmp]
  note c3 = maxVariance_pair[of cmp a b]
  note c4 = maxVariance_triple[of cmp a3 b3 c3]
  note c5 = maxVariance_NaN[of cmp]
  have c6: "maxVariance cmp = MaxVariance (Str ''0.100'')"
    if "map cvalue (filter (\<lambda>r. cvalue r \<noteq> None) (results cmp))
         = [Some (Fin 3000), Some (Fin 3006)]"
    using maxVariance_pair[OF that] variance_3000_3006 by (simp add: Let_def)
  have c7: "maxVariance cmp = MaxVariance (Str ''1.812'')"
    if "map cvalue (filter (\<lambda>r. cvalue r \<noteq> None) (results cmp))
         = [Some (Fin 3142), Some (Fin 3258)]"
    using maxVariance_pair[OF that] variance_3142_3258 by (simp add: Let_def)
  show ?thesis
    apply (intro conjI impI)
    subgoal by (rule c1) blast+
    subgoal by (rule c2)
    subgoal by (rule c3)
    subgoal by (rule c4)
    subgoal by (rule c5) blast+
    subgoal by (rule c6)
    subgoal by (rule c7)
    done
qed

theorem compareEthPrice_collects_all_witness:
  "compareEthPrice twoPrices 0 =
     (\<lparr>query = ''ETH Price (USD)'',
       results = [\<lparr>csource = ''etherscan'', cvalue = Some (Fin 3000), latencyMs = 120,
                   cerror = None\<rparr>,
                  \<lparr>csource = ''coingecko'', cvalue = Some (Fin 3006), latencyMs = 80,
                   cerror = None\<rparr>,
                  \<lparr>csource = ''defillama'', cvalue = None, latencyMs = 50,
                   cerror = Some ''DefiLlama API error: Bad Gateway''\<rparr>]\<rparr>, 250)
   \<and> maxVariance (fst (compareEthPrice twoPrices 0)) = MaxVariance (Str ''0.100'')"
proof -
  let ?o1 = "Resolved (Fin 3000) :: jsnum settled"
  let ?o2 = "Resolved [''ethereum'' \<mapsto> [''usd'' \<mapsto> Fin 3006]]
             :: (string \<rightharpoonup> (string \<rightharpoonup> jsnum)) settled"
  let ?o3 = "Rejected (Error ''Error'' ''DefiLlama API error: Bad Gateway'')
             :: (jsnum option list) settled"
  have h: "etherscan_getEthPrice twoPrices 0 = (?o1, 120)
      \<and> coingecko_getPrice twoPrices 120 = (?o2, 200)
      \<and> defillama_getCoinPrices twoPrices 200 = (?o3, 250)"
    by (simp add: twoPrices_def)
  from compareEthPrice_collects_all[where env = twoPrices and ?t0.0 = 0 and ?o1.0 = ?o1
      and ?t1.0 = 120 and ?o2.0 = ?o2 and ?t2.0 = 200 and ?o3.0 = ?o3 and ?t3.0 = 250,
      THEN conjunct1] h
  have r: "compareEthPrice twoPrices 0 =
     (\<lparr>query = ''ETH Price (USD)'',
       results = [\<lparr>csource = ''etherscan'', cvalue = Some (Fin 3000), latencyMs = 120,
                   cerror = None\<rparr>,
                  \<lparr>csource = ''coingecko'', cvalue = Some (Fin 3006), latencyMs = 80,
                   cerror = None\<rparr>,
                  \<lparr>csource = ''defillama'', cvalue = None, latencyMs = 50,
                   cerror = Some ''DefiLlama API error: Bad Gateway''\<rparr>]\<rparr>, 250)"
    by simp
  have v: "map cvalue (filter (\<lambda>r. cvalue r \<noteq> None)
               (results (fst (compareEthPrice twoPrices 0))))
      = [Some (Fin 3000), Some (Fin 3006)]"
    by (simp add: r)
  from compareEthPrice_collects_all[where cmp = "fst (compareEthPrice twoPrices 0)",
      THEN conjunct2, THEN conjunct2, THEN conjunct2, THEN conjunct2, THEN conjunct2,
      THEN conjunct1] v
  have m: "maxVariance (fst (compareEthPrice twoPrices 0)) = MaxVariance (Str ''0.100'')"
    by blast
  from r m show ?thesis by (intro conjI)
qed

text \<open>
  C4 (as stated) fails: the reported figure is not 0.2. With the explorer returning 3000,
  the market-data service 3006 and the aggregator failing, the mean is 3003, the largest
  distance from it is 3, and the line shows 0.100.
\<close>

theorem compareEthPrice_variance_counterexample:
  "map cvalue (results (fst (compareEthPrice twoPrices 0)))
     = [Some (Fin 3000), Some (Fin 3006), None]
   \<and> maxVariance (fst (compareEthPrice twoPrices 0)) = MaxVariance (Str ''0.100'')
   \<and> maxVariance (fst (compareEthPrice twoPrices 0)) \<noteq> MaxVariance (Str ''0.2'')
   \<and> maxVariance (fst (compareEthPrice twoPrices 0)) \<noteq> MaxVariance (Str ''0.200'')"
proof -
  have a: "map cvalue (results (fst (compareEthPrice twoPrices 0)))
      = [Some (Fin 3000), Some (Fin 3006), None]"
    by (simp add: twoPrices_results)
  have v: "map cvalue (filter (\<lambda>r. cvalue r \<noteq> None)
               (results (fst (compareEthPrice twoPrices 0))))
      = [Some (Fin 3000), Some (Fin 3006)]"
    by (simp add: twoPrices_results)
  have b: "maxVariance (fst (compareEthPrice twoPrices 0)) = MaxVariance (Str ''0.100'')"
    using maxVariance_pair[OF v] variance_3000_3006 by (simp add: Let_def)
  have c: "maxVariance (fst (compareEthPrice twoPrices 0)) \<noteq> MaxVariance (Str ''0.2'')"
    unfolding b by simp
  have d: "maxVariance (fst (compareEthPrice twoPrices 0)) \<noteq> MaxVariance (Str ''0.200'')"
    unfolding b by simp
  from a b c d show ?thesis by (intro conjI)
qed

end
